theory Spec2Isabelle
  imports
    Complex_Main
    "HOL-Library.AList"
    "HOL-Library.Char_ord"
    "HOL-Library.List_Lexorder"
    "HOL-Library.Product_Lexorder"
begin

section \<open>The stock data fetcher of scripts/fetch\_stock\_data.py\<close>

text \<open>
  The theory embeds the class \<open>StockDataFetcher\<close>: the demo data generator
  (\<open>get_demo_data\<close>), the fetch with its classification of the API's answers
  (\<open>fetch_stock_data\<close>), the parser (\<open>parse_stock_data\<close>), the store
  (\<open>save_to_database\<close>) and the runner (\<open>run_pipeline\<close>).

  What the Python takes from outside (the HTTP answer, the clock, the random generator, the
  database server) is read from an environment \<open>env\<close>, one value per call, and the
  counters of the calls made so far are part of the state \<open>world\<close> that every operation
  takes and returns. A Python exception is the \<open>Inl\<close> of a sum.

  The decoded body of an answer is taken to be a JSON object whose values are strings or
  objects. The constructor (which raises when the API key is missing) and \<open>main\<close> are
  outside the model, and so are the log lines of the operations other than the runner's.
\<close>

subsection \<open>Decimal digits: \<open>str\<close>, \<open>int\<close>, \<open>float\<close> and the format \<open>.2f\<close>\<close>

definition digit_char :: "nat \<Rightarrow> char" where
  "digit_char n = char_of (48 + n)"

definition digit_val :: "char \<Rightarrow> nat option" where
  "digit_val c =
     (let k = (of_char c :: nat) in if 48 \<le> k \<and> k \<le> 57 then Some (k - 48) else None)"

text \<open>\<open>str(n)\<close> of a natural number.\<close>

fun str_nat :: "nat \<Rightarrow> string" where
  "str_nat n = (if n < 10 then [digit_char n] else str_nat (n div 10) @ [digit_char (n mod 10)])"

declare str_nat.simps [simp del]

definition str_int :: "int \<Rightarrow> string" where
  "str_int i = (if i < 0 then CHR ''-'' # str_nat (nat (- i)) else str_nat (nat i))"

text \<open>The value of a run of decimal digits, read from the left; \<open>None\<close> at any other character.\<close>

fun digits_val :: "string \<Rightarrow> nat \<Rightarrow> nat option" where
  "digits_val [] acc = Some acc"
| "digits_val (c # cs) acc =
     (case digit_val c of None \<Rightarrow> None | Some d \<Rightarrow> digits_val cs (10 * acc + d))"

definition nat_of_digits :: "string \<Rightarrow> nat option" where
  "nat_of_digits s = (if s = [] then None else digits_val s 0)"

text \<open>
  \<open>int(s)\<close> on a sign and decimal digits; \<open>None\<close> is the \<open>ValueError\<close>. (Python also
  accepts blanks around the number and underscores between digits; the model covers the plain
  numerals, which is what the API and the generator write.)
\<close>

definition py_int :: "string \<Rightarrow> int option" where
  "py_int s =
     (case s of
        [] \<Rightarrow> None
      | c # cs \<Rightarrow>
          if c = CHR ''-'' then map_option (\<lambda>n. - int n) (nat_of_digits cs)
          else if c = CHR ''+'' then map_option int (nat_of_digits cs)
          else map_option int (nat_of_digits s))"

text \<open>
  The exact value of a decimal numeral \<open>digits\<close>, \<open>digits.digits\<close>, \<open>digits.\<close> or
  \<open>.digits\<close>, with an optional sign.
\<close>

definition unsigned_decimal :: "string \<Rightarrow> rat option" where
  "unsigned_decimal s =
     (let ip = takeWhile (\<lambda>c. c \<noteq> CHR ''.'') s;
          rest = dropWhile (\<lambda>c. c \<noteq> CHR ''.'') s
      in case rest of
           [] \<Rightarrow> map_option of_nat (nat_of_digits ip)
         | _ # fp \<Rightarrow>
             if ip = [] \<and> fp = [] then None
             else (case (digits_val ip 0, digits_val fp 0) of
                     (Some a, Some b) \<Rightarrow> Some (of_nat a + of_nat b / 10 ^ length fp)
                   | _ \<Rightarrow> None))"

definition decimal_value :: "string \<Rightarrow> rat option" where
  "decimal_value s =
     (case s of
        [] \<Rightarrow> None
      | c # cs \<Rightarrow>
          if c = CHR ''-'' then map_option uminus (unsigned_decimal cs)
          else if c = CHR ''+'' then unsigned_decimal cs
          else unsigned_decimal s)"

text \<open>
  A Python float is modelled by the rational number it stands for. Every float operation
  yields the exact result rounded to a float: the rounding \<open>fl\<close> is a parameter, of which
  the proofs use only what is stated of it where it is used (monotone, idempotent, odd, exact
  on a few powers of two). \<open>float(s)\<close> is the rounding of the numeral's exact value.
  (Python also reads exponents, \<open>inf\<close> and \<open>nan\<close>; the model covers the plain decimal
  numerals.)
\<close>

definition py_float :: "(rat \<Rightarrow> rat) \<Rightarrow> string \<Rightarrow> rat option" where
  "py_float fl s = map_option fl (decimal_value s)"

text \<open>Round to the nearest natural number, a tie to the even one, for \<open>x \<ge> 0\<close>.\<close>

definition round_half_even :: "rat \<Rightarrow> nat" where
  "round_half_even x =
     (let f = nat \<lfloor>x\<rfloor>; r = x - of_int \<lfloor>x\<rfloor>
      in if r < 1 / 2 then f else if 1 / 2 < r then f + 1 else if even f then f else f + 1)"

text \<open>The format \<open>f"{x:.2f}"\<close>: the hundredths nearest to \<open>x\<close>, two digits after the point.\<close>

definition cents :: "rat \<Rightarrow> nat" where
  "cents x = round_half_even (\<bar>x\<bar> * 100)"

definition fmt2 :: "rat \<Rightarrow> string" where
  "fmt2 x =
     (let c = cents x
      in (if x < 0 then ''-'' else '''') @ str_nat (c div 100) @ ''.'' @
         [digit_char (c mod 100 div 10), digit_char (c mod 10)])"

subsection \<open>Calendar dates: \<open>timedelta\<close>, \<open>strftime\<close> and \<open>strptime\<close>\<close>

text \<open>A date is (year, month, day); the lexicographic order of the triple is the calendar's.\<close>

type_synonym date = "nat \<times> nat \<times> nat"

definition is_leap :: "nat \<Rightarrow> bool" where
  "is_leap y = (y mod 4 = 0 \<and> (y mod 100 \<noteq> 0 \<or> y mod 400 = 0))"

definition days_in_month :: "nat \<Rightarrow> nat \<Rightarrow> nat" where
  "days_in_month y m =
     (if m = 2 then (if is_leap y then 29 else 28)
      else if m = 4 \<or> m = 6 \<or> m = 9 \<or> m = 11 then 30 else 31)"

definition valid_date :: "date \<Rightarrow> bool" where
  "valid_date dt =
     (case dt of (y, m, d) \<Rightarrow>
        1 \<le> y \<and> y \<le> 9999 \<and> 1 \<le> m \<and> m \<le> 12 \<and> 1 \<le> d \<and> d \<le> days_in_month y m)"

text \<open>The day before; \<open>None\<close> before 0001-01-01, where Python raises \<open>OverflowError\<close>.\<close>

definition prev_day :: "date \<Rightarrow> date option" where
  "prev_day dt =
     (case dt of (y, m, d) \<Rightarrow>
        if 1 < d then Some (y, m, d - 1)
        else if 1 < m then Some (y, m - 1, days_in_month y (m - 1))
        else if 1 < y then Some (y - 1, 12, 31)
        else None)"

text \<open>\<open>dt - timedelta(days=i)\<close>, as a date.\<close>

fun minus_days :: "date \<Rightarrow> nat \<Rightarrow> date option" where
  "minus_days dt 0 = Some dt"
| "minus_days dt (Suc i) = (case prev_day dt of None \<Rightarrow> None | Some p \<Rightarrow> minus_days p i)"

definition pad2 :: "nat \<Rightarrow> string" where
  "pad2 n = [digit_char (n div 10 mod 10), digit_char (n mod 10)]"

definition pad4 :: "nat \<Rightarrow> string" where
  "pad4 n = [digit_char (n div 1000 mod 10), digit_char (n div 100 mod 10),
             digit_char (n div 10 mod 10), digit_char (n mod 10)]"

text \<open>\<open>strftime('%Y-%m-%d')\<close>, the year on four digits.\<close>

definition strftime_ymd :: "date \<Rightarrow> string" where
  "strftime_ymd dt = (case dt of (y, m, d) \<Rightarrow> pad4 y @ ''-'' @ pad2 m @ ''-'' @ pad2 d)"

text \<open>
  \<open>datetime.strptime(s, '%Y-%m-%d')\<close>. The directives are the regular expressions of the
  standard library: \<open>%Y\<close> is four digits, \<open>%m\<close> is \<open>1[0-2]|0[1-9]|[1-9]\<close>, \<open>%d\<close> is
  \<open>3[0-1]|[1-2]\d|0[1-9]|[1-9]| [1-9]\<close>; the whole string must be consumed and the date
  must exist. \<open>None\<close> is the \<open>ValueError\<close>.
\<close>

definition month_token :: "string \<Rightarrow> nat option" where
  "month_token s =
     (case s of
        [a] \<Rightarrow> (case digit_val a of Some x \<Rightarrow> if 1 \<le> x then Some x else None | None \<Rightarrow> None)
      | [a, b] \<Rightarrow>
          (case (digit_val a, digit_val b) of
             (Some x, Some y) \<Rightarrow>
               if x = 1 \<and> y \<le> 2 then Some (10 + y)
               else if x = 0 \<and> 1 \<le> y then Some y
               else None
           | _ \<Rightarrow> None)
      | _ \<Rightarrow> None)"

definition day_token :: "string \<Rightarrow> nat option" where
  "day_token s =
     (case s of
        [a] \<Rightarrow> (case digit_val a of Some x \<Rightarrow> if 1 \<le> x then Some x else None | None \<Rightarrow> None)
      | [a, b] \<Rightarrow>
          (case (digit_val a, digit_val b) of
             (Some x, Some y) \<Rightarrow>
               if x = 3 \<and> y \<le> 1 then Some (30 + y)
               else if x = 1 \<or> x = 2 then Some (10 * x + y)
               else if x = 0 \<and> 1 \<le> y then Some y
               else None
           | (None, Some y) \<Rightarrow> if a = CHR '' '' \<and> 1 \<le> y then Some y else None
           | _ \<Rightarrow> None)
      | _ \<Rightarrow> None)"

definition strptime_ymd :: "string \<Rightarrow> date option" where
  "strptime_ymd s =
     (case s of
        y1 # y2 # y3 # y4 # dash # rest \<Rightarrow>
          if dash \<noteq> CHR ''-'' then None
          else (case digits_val [y1, y2, y3, y4] 0 of
                  None \<Rightarrow> None
                | Some y \<Rightarrow>
                    (case dropWhile (\<lambda>c. c \<noteq> CHR ''-'') rest of
                       [] \<Rightarrow> None
                     | _ # dtok \<Rightarrow>
                         (case (month_token (takeWhile (\<lambda>c. c \<noteq> CHR ''-'') rest),
                                day_token dtok) of
                            (Some m, Some d) \<Rightarrow>
                              if valid_date (y, m, d) then Some (y, m, d) else None
                          | _ \<Rightarrow> None)))
      | _ \<Rightarrow> None)"

subsection \<open>The response of the API\<close>

text \<open>
  The decoded JSON body is a dict; its values are strings or dicts. A dict is an association
  list with distinct keys, in insertion order.
\<close>

datatype json = JString string | JObject "(string \<times> json) list"

type_synonym pydict = "(string \<times> json) list"

definition has_key :: "string \<Rightarrow> pydict \<Rightarrow> bool" where
  "has_key k d = (map_of d k \<noteq> None)"

subsection \<open>The environment and the state\<close>

datatype py_exn = OverflowError | UnboundLocalError | DatabaseError

text \<open>
  What \<open>requests.get\<close>, \<open>raise_for_status\<close> and \<open>response.json()\<close> leave:
  a \<open>RequestException\<close>, another exception, or the decoded body.
\<close>

datatype http_result = RequestException | OtherException | Body pydict

text \<open>
  What the database server does during one call of \<open>save_to_database\<close>: which of the
  driver's calls raise, and the transaction's \<open>CURRENT_TIMESTAMP\<close>. The two \<open>close\<close>
  calls are taken not to raise.
\<close>

record db_faults =
  connect_fails :: bool
  cursor_fails :: bool
  execute_fails_at :: "nat option"
  commit_fails :: bool
  rollback_fails :: bool
  txn_time :: nat

record env =
  fl :: "rat \<Rightarrow> rat"
  http_reply :: "nat \<Rightarrow> string \<Rightarrow> http_result"
  clock_date :: "nat \<Rightarrow> date"
  rand_unit :: "nat \<Rightarrow> rat"
  rand_nat :: "nat \<Rightarrow> nat"
  db_faults_of :: "nat \<Rightarrow> db_faults"
  created_default :: "nat \<Rightarrow> nat option"

text \<open>
  \<open>fl\<close> rounds to a float; \<open>http_reply k s\<close> is the answer to the \<open>k\<close>-th request,
  made for symbol \<open>s\<close>; \<open>clock_date k\<close> is the local date at the \<open>k\<close>-th
  \<open>datetime.now()\<close>; \<open>rand_unit k\<close> is the \<open>k\<close>-th \<open>random.random()\<close>, in
  \<open>[0, 1)\<close>; \<open>rand_nat k\<close> feeds the \<open>k\<close>-th \<open>randint\<close>; \<open>db_faults_of k\<close>
  rules the \<open>k\<close>-th connection attempt. The table's DDL is not part of the repository:
  \<open>created_default t\<close> is what the column \<open>created_at\<close> of a row inserted at time
  \<open>t\<close> gets (\<open>None\<close> is NULL).
\<close>

record price_record =
  symbol :: string
  date :: date
  open_price :: rat
  high_price :: rat
  low_price :: rat
  close_price :: rat
  volume :: int

record db_row = price_record +
  created_at :: "nat option"

datatype outcome = StoredOk | FetchFailed | ParseFailed | StoreFailed | UnexpectedError

text \<open>The trace of the runner: its log line per symbol and stage, and its sleeps (seconds).\<close>

datatype event = Processing string | Failed outcome string | Succeeded string | Sleep nat

record world =
  n_http :: nat
  n_clock :: nat
  n_random :: nat
  n_randint :: nat
  n_connect :: nat
  table :: "db_row list"
  open_connections :: nat
  open_cursors :: nat
  events :: "event list"

subsection \<open>Float arithmetic and the random generator\<close>

definition lit :: "env \<Rightarrow> rat \<Rightarrow> rat" where
  "lit e q = fl e q"

definition fadd :: "env \<Rightarrow> rat \<Rightarrow> rat \<Rightarrow> rat" where
  "fadd e x y = fl e (x + y)"

definition fsub :: "env \<Rightarrow> rat \<Rightarrow> rat \<Rightarrow> rat" where
  "fsub e x y = fl e (x - y)"

definition fmul :: "env \<Rightarrow> rat \<Rightarrow> rat \<Rightarrow> rat" where
  "fmul e x y = fl e (x * y)"

text \<open>\<open>random.uniform(a, b)\<close> is \<open>a + (b - a) * self.random()\<close>.\<close>

definition uniform :: "env \<Rightarrow> rat \<Rightarrow> rat \<Rightarrow> world \<Rightarrow> rat \<times> world" where
  "uniform e a b w =
     (fadd e a (fmul e (fsub e b a) (rand_unit e (n_random w))),
      w\<lparr>n_random := Suc (n_random w)\<rparr>)"

text \<open>\<open>random.randint(a, b)\<close> for \<open>a \<le> b\<close>: \<open>a\<close> plus a draw below \<open>b - a + 1\<close>.\<close>

definition randint :: "env \<Rightarrow> nat \<Rightarrow> nat \<Rightarrow> world \<Rightarrow> nat \<times> world" where
  "randint e a b w =
     (a + rand_nat e (n_randint w) mod (b - a + 1), w\<lparr>n_randint := Suc (n_randint w)\<rparr>)"

subsection \<open>\<open>get_demo_data\<close>\<close>

definition base_price :: "env \<Rightarrow> string \<Rightarrow> rat" where
  "base_price e symb =
     (case map_of [(''AAPL'', 150), (''GOOGL'', 2500), (''MSFT'', 300)] symb of
        Some p \<Rightarrow> lit e p
      | None \<Rightarrow> lit e 100)"

text \<open>One round of the loop: the key and the value stored in \<open>time_series\<close>.\<close>

definition demo_entry ::
  "env \<Rightarrow> rat \<Rightarrow> nat \<Rightarrow> world \<Rightarrow> (py_exn + string \<times> json) \<times> world" where
  "demo_entry e bp i w =
     (let today = clock_date e (n_clock w);
          w1 = w\<lparr>n_clock := Suc (n_clock w)\<rparr>
      in case minus_days today i of
           None \<Rightarrow> (Inl OverflowError, w1)
         | Some d \<Rightarrow>
             (let date_key = strftime_ymd d;
                  (daily_change, w2) = uniform e (- lit e (5 / 100)) (lit e (5 / 100)) w1;
                  (jitter, w3) = uniform e (- lit e (2 / 100)) (lit e (2 / 100)) w2;
                  openp = fmul e bp (fadd e 1 jitter);
                  closep = fmul e openp (fadd e 1 daily_change);
                  (up, w4) = uniform e 0 (lit e (3 / 100)) w3;
                  highp = fmul e (max openp closep) (fadd e 1 up);
                  (down, w5) = uniform e 0 (lit e (3 / 100)) w4;
                  lowp = fmul e (min openp closep) (fsub e 1 down);
                  (vol, w6) = randint e 1000000 10000000 w5
              in (Inr (date_key,
                       JObject [(''1. open'', JString (fmt2 openp)),
                                (''2. high'', JString (fmt2 highp)),
                                (''3. low'', JString (fmt2 lowp)),
                                (''4. close'', JString (fmt2 closep)),
                                (''5. volume'', JString (str_nat vol))]),
                  w6)))"

text \<open>\<open>for i in range(7): ... time_series[date] = {...}\<close>\<close>

fun demo_loop ::
  "env \<Rightarrow> rat \<Rightarrow> nat list \<Rightarrow> pydict \<Rightarrow> world \<Rightarrow> (py_exn + pydict) \<times> world" where
  "demo_loop e bp [] time_series w = (Inr time_series, w)"
| "demo_loop e bp (i # rest) time_series w =
     (case demo_entry e bp i w of
        (Inl x, w') \<Rightarrow> (Inl x, w')
      | (Inr (k, v), w') \<Rightarrow> demo_loop e bp rest (AList.update k v time_series) w')"

definition get_demo_data :: "env \<Rightarrow> string \<Rightarrow> world \<Rightarrow> (py_exn + pydict) \<times> world" where
  "get_demo_data e symb w =
     (case demo_loop e (base_price e symb) [0..<7] [] w of
        (Inl x, w') \<Rightarrow> (Inl x, w')
      | (Inr time_series, w') \<Rightarrow>
          (Inr [(''Time Series (Daily)'', JObject time_series),
                (''Meta Data'',
                 JObject [(''1. Information'',
                           JString (''Demo Daily Prices and Volumes for '' @ symb)),
                          (''2. Symbol'', JString symb),
                          (''3. Last Refreshed'',
                           JString (strftime_ymd (clock_date e (n_clock w')))),
                          (''4. Output Size'', JString ''Compact''),
                          (''5. Time Zone'', JString ''US/Eastern'')])],
           w'\<lparr>n_clock := Suc (n_clock w')\<rparr>))"

subsection \<open>\<open>fetch_stock_data\<close>\<close>

text \<open>\<open>return self.get_demo_data(symbol)\<close> in an \<open>except\<close> clause: what it raises escapes.\<close>

definition return_demo ::
  "env \<Rightarrow> string \<Rightarrow> world \<Rightarrow> (py_exn + pydict option) \<times> world" where
  "return_demo e symb w =
     (case get_demo_data e symb w of
        (Inl x, w') \<Rightarrow> (Inl x, w')
      | (Inr d, w') \<Rightarrow> (Inr (Some d), w'))"

text \<open>
  The same statement inside the \<open>try\<close>: what it raises is caught by
  \<open>except Exception\<close>, whose body runs the generator again.
\<close>

definition return_demo_in_try ::
  "env \<Rightarrow> string \<Rightarrow> world \<Rightarrow> (py_exn + pydict option) \<times> world" where
  "return_demo_in_try e symb w =
     (case get_demo_data e symb w of
        (Inl x, w') \<Rightarrow> return_demo e symb w'
      | (Inr d, w') \<Rightarrow> (Inr (Some d), w'))"

definition fetch_stock_data ::
  "env \<Rightarrow> string \<Rightarrow> world \<Rightarrow> (py_exn + pydict option) \<times> world" where
  "fetch_stock_data e symb w =
     (let reply = http_reply e (n_http w) symb;
          w1 = w\<lparr>n_http := Suc (n_http w)\<rparr>
      in case reply of
           RequestException \<Rightarrow> return_demo e symb w1
         | OtherException \<Rightarrow> return_demo e symb w1
         | Body data \<Rightarrow>
             if has_key ''Error Message'' data then (Inr None, w1)
             else if has_key ''Note'' data then (Inr None, w1)
             else if has_key ''Information'' data then return_demo_in_try e symb w1
             else if \<not> has_key ''Time Series (Daily)'' data then return_demo_in_try e symb w1
             else (Inr (Some data), w1))"

subsection \<open>\<open>parse_stock_data\<close>\<close>

text \<open>\<open>float(daily_data[k])\<close> and \<open>int(daily_data[k])\<close>; \<open>None\<close> is any exception.\<close>

definition float_field :: "env \<Rightarrow> pydict \<Rightarrow> string \<Rightarrow> rat option" where
  "float_field e daily_data k =
     (case map_of daily_data k of Some (JString s) \<Rightarrow> py_float (fl e) s | _ \<Rightarrow> None)"

definition int_field :: "pydict \<Rightarrow> string \<Rightarrow> int option" where
  "int_field daily_data k =
     (case map_of daily_data k of Some (JString s) \<Rightarrow> py_int s | _ \<Rightarrow> None)"

text \<open>The body of the loop: the record of one date, \<open>None\<close> when anything in it raises.\<close>

definition parse_entry :: "env \<Rightarrow> string \<Rightarrow> pydict \<Rightarrow> string \<Rightarrow> price_record option" where
  "parse_entry e symb time_series date_str =
     (case map_of time_series date_str of
        Some (JObject daily_data) \<Rightarrow>
          (case strptime_ymd date_str of
             None \<Rightarrow> None
           | Some d \<Rightarrow>
               (case (float_field e daily_data ''1. open'', float_field e daily_data ''2. high'',
                      float_field e daily_data ''3. low'', float_field e daily_data ''4. close'',
                      int_field daily_data ''5. volume'') of
                  (Some po, Some ph, Some pl, Some pc, Some v) \<Rightarrow>
                    Some \<lparr>symbol = symb, date = d, open_price = po, high_price = ph,
                          low_price = pl, close_price = pc, volume = v\<rparr>
                | _ \<Rightarrow> None))
      | _ \<Rightarrow> None)"

fun parse_loop ::
  "env \<Rightarrow> string \<Rightarrow> pydict \<Rightarrow> string list \<Rightarrow> price_record list \<Rightarrow> price_record list option"
  where
  "parse_loop e symb time_series [] parsed_data = Some parsed_data"
| "parse_loop e symb time_series (date_str # rest) parsed_data =
     (case parse_entry e symb time_series date_str of
        None \<Rightarrow> None
      | Some r \<Rightarrow> parse_loop e symb time_series rest (parsed_data @ [r]))"

text \<open>\<open>sorted(time_series.keys(), reverse=True)[:7]\<close>\<close>

definition sorted_dates :: "pydict \<Rightarrow> string list" where
  "sorted_dates time_series = take 7 (rev (sort (map fst time_series)))"

definition parse_stock_data :: "env \<Rightarrow> pydict \<Rightarrow> string \<Rightarrow> price_record list" where
  "parse_stock_data e data symb =
     (case map_of data ''Time Series (Daily)'' of
        Some (JObject time_series) \<Rightarrow>
          (case parse_loop e symb time_series (sorted_dates time_series) [] of
             None \<Rightarrow> []
           | Some parsed_data \<Rightarrow> parsed_data)
      | _ \<Rightarrow> [])"

subsection \<open>\<open>save_to_database\<close>\<close>

text \<open>
  The table \<open>stock_prices\<close> with its constraint \<open>UNIQUE(symbol, date)\<close>, and one
  \<open>INSERT ... ON CONFLICT (symbol, date) DO UPDATE SET ...\<close> at time \<open>now\<close>.
\<close>

definition row_key :: "'a price_record_scheme \<Rightarrow> string \<times> date" where
  "row_key r = (symbol r, date r)"

definition new_row :: "nat option \<Rightarrow> price_record \<Rightarrow> db_row" where
  "new_row c r =
     \<lparr>symbol = symbol r, date = date r, open_price = open_price r, high_price = high_price r,
      low_price = low_price r, close_price = close_price r, volume = volume r, created_at = c\<rparr>"

definition do_update :: "nat \<Rightarrow> price_record \<Rightarrow> db_row \<Rightarrow> db_row" where
  "do_update now r x =
     x\<lparr>open_price := open_price r, high_price := high_price r, low_price := low_price r,
       close_price := close_price r, volume := volume r, created_at := Some now\<rparr>"

fun upsert :: "(nat \<Rightarrow> nat option) \<Rightarrow> nat \<Rightarrow> price_record \<Rightarrow> db_row list \<Rightarrow> db_row list" where
  "upsert dflt now r [] = [new_row (dflt now) r]"
| "upsert dflt now r (x # tbl) =
     (if row_key x = row_key r then do_update now r x # tbl else x # upsert dflt now r tbl)"

text \<open>
  \<open>cursor.executemany\<close>: one statement per record, in order; \<open>None\<close> when the
  statement of the record at index \<open>fail\<close> raises.
\<close>

fun executemany ::
  "(nat \<Rightarrow> nat option) \<Rightarrow> nat \<Rightarrow> nat option \<Rightarrow> price_record list \<Rightarrow> db_row list \<Rightarrow>
   db_row list option" where
  "executemany dflt now fail [] tbl = Some tbl"
| "executemany dflt now fail (r # rs) tbl =
     (if fail = Some 0 then None
      else executemany dflt now (map_option (\<lambda>k. k - 1) fail) rs (upsert dflt now r tbl))"

text \<open>The \<open>finally\<close> clause with \<open>cursor\<close> bound: \<open>cursor.close(); connection.close()\<close>.\<close>

definition finally_close :: "world \<Rightarrow> world" where
  "finally_close w =
     w\<lparr>open_cursors := open_cursors w - 1, open_connections := open_connections w - 1\<rparr>"

text \<open>
  The \<open>except\<close> clause, \<open>connection.rollback(); return False\<close>, followed by the
  \<open>finally\<close> clause. The pending statements were never written to the table.
\<close>

definition except_rollback :: "db_faults \<Rightarrow> world \<Rightarrow> (py_exn + bool) \<times> world" where
  "except_rollback f w =
     (if rollback_fails f then (Inl DatabaseError, finally_close w)
      else (Inr False, finally_close w))"

text \<open>
  When \<open>connection.cursor()\<close> raises, \<open>cursor\<close> is unbound: the \<open>except\<close> clause
  runs, then \<open>cursor.close()\<close> in the \<open>finally\<close> clause raises
  \<open>UnboundLocalError\<close>, which replaces the pending \<open>return False\<close> (or the exception of
  the rollback) and skips \<open>connection.close()\<close>.
\<close>

definition save_to_database ::
  "env \<Rightarrow> price_record list \<Rightarrow> world \<Rightarrow> (py_exn + bool) \<times> world" where
  "save_to_database e records w =
     (if records = [] then (Inr False, w)
      else
        (let f = db_faults_of e (n_connect w);
             w0 = w\<lparr>n_connect := Suc (n_connect w)\<rparr>
         in if connect_fails f then (Inr False, w0)
            else
              (let w1 = w0\<lparr>open_connections := Suc (open_connections w0)\<rparr>
               in if cursor_fails f then (Inl UnboundLocalError, w1)
                  else
                    (let w2 = w1\<lparr>open_cursors := Suc (open_cursors w1)\<rparr>
                     in case executemany (created_default e) (txn_time f)
                               (execute_fails_at f) records (table w2) of
                          None \<Rightarrow> except_rollback f w2
                        | Some pending \<Rightarrow>
                            if commit_fails f then except_rollback f w2
                            else (Inr True, finally_close (w2\<lparr>table := pending\<rparr>))))))"

subsection \<open>\<open>run_pipeline\<close>\<close>

definition log_line :: "event \<Rightarrow> world \<Rightarrow> world" where
  "log_line ev w = w\<lparr>events := events w @ [ev]\<rparr>"

text \<open>
  The body of the loop over the symbols, with the state in which the symbol ends. Each
  \<open>continue\<close> is a return of this function; \<open>except Exception\<close> is the \<open>Inl\<close> case
  of the two calls that can raise.
\<close>

definition process_symbol :: "env \<Rightarrow> string \<Rightarrow> world \<Rightarrow> outcome \<times> world" where
  "process_symbol e symb w =
     (case fetch_stock_data e symb (log_line (Processing symb) w) of
        (Inl x, w1) \<Rightarrow> (UnexpectedError, log_line (Failed UnexpectedError symb) w1)
      | (Inr raw_data, w1) \<Rightarrow>
          (case raw_data of
             None \<Rightarrow> (FetchFailed, log_line (Failed FetchFailed symb) w1)
           | Some data \<Rightarrow>
               if data = [] then (FetchFailed, log_line (Failed FetchFailed symb) w1)
               else
                 (let parsed_records = parse_stock_data e data symb
                  in if parsed_records = [] then (ParseFailed, log_line (Failed ParseFailed symb) w1)
                     else
                       (case save_to_database e parsed_records w1 of
                          (Inl x, w2) \<Rightarrow> (UnexpectedError, log_line (Failed UnexpectedError symb) w2)
                        | (Inr saved, w2) \<Rightarrow>
                            if \<not> saved then (StoreFailed, log_line (Failed StoreFailed symb) w2)
                            else (StoredOk, log_line (Sleep 12) (log_line (Succeeded symb) w2))))))"

fun run_loop :: "env \<Rightarrow> string list \<Rightarrow> bool \<Rightarrow> world \<Rightarrow> bool \<times> world" where
  "run_loop e [] overall_success w = (overall_success, w)"
| "run_loop e (symb # rest) overall_success w =
     (case process_symbol e symb w of
        (out, w') \<Rightarrow> run_loop e rest (if out = StoredOk then overall_success else False) w')"

definition run_pipeline :: "env \<Rightarrow> string list option \<Rightarrow> world \<Rightarrow> bool \<times> world" where
  "run_pipeline e symbols w =
     run_loop e (case symbols of None \<Rightarrow> [''AAPL'', ''GOOGL'', ''MSFT''] | Some l \<Rightarrow> l) True w"


subsection \<open>Reading the trace and the database\<close>



text \<open>What the generator, the fetch and the store leave alone.\<close>

definition same_but_draws :: "world \<Rightarrow> world \<Rightarrow> bool" where
  "same_but_draws w w' =
     (n_http w' = n_http w \<and> n_connect w' = n_connect w \<and> table w' = table w \<and>
      open_connections w' = open_connections w \<and> open_cursors w' = open_cursors w \<and>
      events w' = events w)"

text \<open>The row of a key; the last record of a batch with a key.\<close>

definition lookup_row :: "string \<times> date \<Rightarrow> db_row list \<Rightarrow> db_row option" where
  "lookup_row k tbl = find (\<lambda>x. row_key x = k) tbl"

definition last_with_key :: "string \<times> date \<Rightarrow> price_record list \<Rightarrow> price_record option" where
  "last_with_key k rs = find (\<lambda>r. row_key r = k) (rev rs)"

subsection \<open>Concrete inputs\<close>

definition no_faults :: db_faults where
  "no_faults =
     \<lparr>connect_fails = False, cursor_fails = False, execute_fails_at = None,
      commit_fails = False, rollback_fails = False, txn_time = 5\<rparr>"

text \<open>
  An environment with exact float arithmetic, no network (every request raises), the clock
  at 2024-03-02 and a database without faults.
\<close>

definition offline_env :: env where
  "offline_env =
     \<lparr>fl = (\<lambda>x. x), http_reply = (\<lambda>k s. RequestException),
      clock_date = (\<lambda>k. (2024, 3, 2)), rand_unit = (\<lambda>k. 1 / 3),
      rand_nat = (\<lambda>k. 12345678), db_faults_of = (\<lambda>k. no_faults),
      created_default = Some\<rparr>"

definition empty_world :: world where
  "empty_world =
     \<lparr>n_http = 0, n_clock = 0, n_random = 0, n_randint = 0, n_connect = 0, table = [],
      open_connections = 0, open_cursors = 0, events = []\<rparr>"

text \<open>The API answers every request with a rate-limit note.\<close>

definition note_env :: env where
  "note_env =
     offline_env\<lparr>http_reply :=
       (\<lambda>k s. Body [(''Note'', JString ''Thank you for using Alpha Vantage!'')])\<rparr>"

text \<open>The database refuses the cursor.\<close>

definition no_cursor_env :: env where
  "no_cursor_env = offline_env\<lparr>db_faults_of := (\<lambda>k. no_faults\<lparr>cursor_fails := True\<rparr>)\<rparr>"

definition aapl_record :: "rat \<Rightarrow> price_record" where
  "aapl_record p =
     \<lparr>symbol = ''AAPL'', date = (2024, 3, 1), open_price = p, high_price = p + 1,
      low_price = p - 1, close_price = p, volume = 1000000\<rparr>"

text \<open>A table holding one row, created at time 1.\<close>

definition one_row_world :: world where
  "one_row_world = empty_world\<lparr>table := [new_row (Some 1) (aapl_record 150)]\<rparr>"



text \<open>A database whose transactions are stamped 10, 11, ...\<close>

definition clocked_env :: env where
  "clocked_env = offline_env\<lparr>db_faults_of := (\<lambda>k. no_faults\<lparr>txn_time := 10 + k\<rparr>)\<rparr>"

subsection \<open>Well-formed time series\<close>

text \<open>
  The exact value of a price field; an entry whose five fields are numerals; a key that is
  the ISO form of a date of the calendar, and its date.
\<close>

definition decimal_field :: "pydict \<Rightarrow> string \<Rightarrow> rat option" where
  "decimal_field daily_data k =
     (case map_of daily_data k of Some (JString s) \<Rightarrow> decimal_value s | _ \<Rightarrow> None)"

definition numeric_fields :: "json \<Rightarrow> bool" where
  "numeric_fields v =
     (case v of
        JObject dd \<Rightarrow>
          decimal_field dd ''1. open'' \<noteq> None \<and> decimal_field dd ''2. high'' \<noteq> None \<and>
          decimal_field dd ''3. low'' \<noteq> None \<and> decimal_field dd ''4. close'' \<noteq> None \<and>
          int_field dd ''5. volume'' \<noteq> None
      | JString s \<Rightarrow> False)"

definition iso_date_key :: "string \<Rightarrow> bool" where
  "iso_date_key k = (case strptime_ymd k of Some d \<Rightarrow> strftime_ymd d = k | None \<Rightarrow> False)"

definition key_date :: "string \<Rightarrow> date" where
  "key_date k = (case strptime_ymd k of Some d \<Rightarrow> d | None \<Rightarrow> (0, 0, 0))"

text \<open>More concrete inputs: a day with prices out of range, and eight days out of order.\<close>

definition bad_day_body :: pydict where
  "bad_day_body =
     [(''Time Series (Daily)'',
       JObject [(''2024-03-01'',
                 JObject [(''1. open'', JString ''-1.50''), (''2. high'', JString ''2.00''),
                          (''3. low'', JString ''3.00''), (''4. close'', JString ''0.00''),
                          (''5. volume'', JString ''0'')])])]"

definition day_fields :: json where
  "day_fields =
     JObject [(''1. open'', JString ''150.25''), (''2. high'', JString ''151.00''),
              (''3. low'', JString ''149.50''), (''4. close'', JString ''150.75''),
              (''5. volume'', JString ''1000000'')]"

definition eight_days :: pydict where
  "eight_days =
     [(''2024-03-01'', day_fields), (''2024-02-26'', day_fields), (''2024-03-04'', day_fields),
      (''2024-02-29'', day_fields), (''2024-02-27'', day_fields), (''2024-03-03'', day_fields),
      (''2024-02-28'', day_fields), (''2024-03-02'', day_fields)]"

definition eight_days_body :: pydict where
  "eight_days_body = [(''Meta Data'', JObject []), (''Time Series (Daily)'', JObject eight_days)]"

subsection \<open>Reading the generator's output\<close>

text \<open>
  What the proofs assume of the rounding of float operations: it is monotone, leaves a
  float as it is, commutes with the sign, and 1, 1/2, 1/4 and 1/8 are floats.
\<close>

definition float_rounding :: "(rat \<Rightarrow> rat) \<Rightarrow> bool" where
  "float_rounding f =
     ((\<forall>x y. x \<le> y \<longrightarrow> f x \<le> f y) \<and> (\<forall>x. f (f x) = f x) \<and> (\<forall>x. f (- x) = - f x) \<and>
      f 1 = 1 \<and> f (1 / 2) = 1 / 2 \<and> f (1 / 4) = 1 / 4 \<and> f (1 / 8) = 1 / 8)"

text \<open>
  The invariant of one day of a time series, read from the strings of the response:
  \<open>low \<le> min(open, close)\<close>, \<open>high \<ge> max(open, close)\<close>, the four prices positive,
  the volume an integer between 1,000,000 and 10,000,000.
\<close>

definition ohlc_ok :: "json \<Rightarrow> bool" where
  "ohlc_ok v =
     (case v of
        JObject dd \<Rightarrow>
          (case (decimal_field dd ''1. open'', decimal_field dd ''2. high'',
                 decimal_field dd ''3. low'', decimal_field dd ''4. close'',
                 int_field dd ''5. volume'') of
             (Some po, Some ph, Some pl, Some pc, Some vol) \<Rightarrow>
               pl \<le> min po pc \<and> max po pc \<le> ph \<and> 0 < po \<and> 0 < ph \<and> 0 < pl \<and> 0 < pc \<and>
               1000000 \<le> vol \<and> vol \<le> 10000000
           | _ \<Rightarrow> False)
      | JString s \<Rightarrow> False)"

text \<open>The \<open>n\<close> most recent dates of the calendar, from \<open>d\<close> backward.\<close>

fun recent_dates :: "date \<Rightarrow> nat \<Rightarrow> date list" where
  "recent_dates d 0 = []"
| "recent_dates d (Suc n) =
     d # (case prev_day d of None \<Rightarrow> [] | Some p \<Rightarrow> recent_dates p n)"

text \<open>The time series of what the generator returned.\<close>

definition time_series_of :: "py_exn + pydict \<Rightarrow> pydict" where
  "time_series_of r =
     (case r of
        Inl x \<Rightarrow> []
      | Inr data \<Rightarrow>
          (case map_of data ''Time Series (Daily)'' of Some (JObject ts) \<Rightarrow> ts | _ \<Rightarrow> []))"

text \<open>The keys of a dict after assignments to the keys of a list, in order.\<close>

fun add_keys :: "string list \<Rightarrow> string list \<Rightarrow> string list" where
  "add_keys ks [] = ks"
| "add_keys ks (k # rest) = add_keys (if k \<in> set ks then ks else ks @ [k]) rest"

text \<open>A clock that passes midnight between the first and the second reading.\<close>

definition midnight_env :: env where
  "midnight_env =
     offline_env\<lparr>clock_date := (\<lambda>k. if k = 0 then (2024, 3, 2) else (2024, 3, 3))\<rparr>"

text \<open>An API that answers with the day whose prices are out of range.\<close>

definition bad_day_env :: env where
  "bad_day_env = offline_env\<lparr>http_reply := (\<lambda>k s. Body bad_day_body)\<rparr>"

section \<open>Properties\<close>

subsection \<open>What each operation leaves alone\<close>



lemma uniform_frame: "uniform e a b w = (x, w') \<Longrightarrow> same_but_draws w w'"
  by (auto simp: uniform_def same_but_draws_def)

lemma randint_frame: "randint e a b w = (x, w') \<Longrightarrow> same_but_draws w w'"
  by (auto simp: randint_def same_but_draws_def)

lemma clock_frame: "same_but_draws w (w\<lparr>n_clock := k\<rparr>)"
  by (simp add: same_but_draws_def)



















subsection \<open>A run with one failed and one stored symbol\<close>

lemmas parse_eval =
  parse_stock_data_def sorted_dates_def parse_entry_def float_field_def int_field_def
  py_float_def py_int_def decimal_value_def unsigned_decimal_def nat_of_digits_def digit_val_def
  strptime_ymd_def month_token_def day_token_def valid_date_def days_in_month_def





subsection \<open>The fetch and the rate-limit note\<close>

text \<open>
  C1, as the specification states it: an answer with a \<open>Note\<close> field makes the fetch fall
  back to the generator and return a synthetic response. The code returns \<open>None\<close> there:
  the branch of \<open>'Note'\<close> is an explicit \<open>return None\<close>, like the one of
  \<open>'Error Message'\<close>, and no clock or random draw is made.
\<close>

theorem fetch_note_counterexample:
  "http_reply note_env 0 ''AAPL'' = Body [(''Note'', JString ''Thank you for using Alpha Vantage!'')]
   \<and> fetch_stock_data note_env ''AAPL'' empty_world = (Inr None, empty_world\<lparr>n_http := 1\<rparr>)"
  by (simp add: note_env_def offline_env_def empty_world_def fetch_stock_data_def has_key_def)

text \<open>
  C1, amended: when the decoded answer has a \<open>Note\<close> field the fetch returns no data
  (\<open>None\<close>) without calling the generator, whatever else the answer holds, and the runner
  marks the symbol failed at the fetch stage.
\<close>

theorem fetch_note_returns_none:
  assumes "http_reply e (n_http w) symb = Body data" and "has_key ''Note'' data"
  shows "fetch_stock_data e symb w = (Inr None, w\<lparr>n_http := Suc (n_http w)\<rparr>)
         \<and> fst (process_symbol e symb w) = FetchFailed"
proof -
  have a: "fetch_stock_data e symb w = (Inr None, w\<lparr>n_http := Suc (n_http w)\<rparr>)"
    using assms by (simp add: fetch_stock_data_def Let_def)
  have "http_reply e (n_http (log_line (Processing symb) w)) symb = Body data"
    using assms(1) by (simp add: log_line_def)
  then have "fst (fetch_stock_data e symb (log_line (Processing symb) w)) = Inr None"
    using assms(2) by (simp add: fetch_stock_data_def Let_def)
  then have b: "fst (process_symbol e symb w) = FetchFailed"
    by (cases "fetch_stock_data e symb (log_line (Processing symb) w)") (simp add: process_symbol_def)
  from a b show ?thesis by simp
qed

theorem fetch_note_returns_none_witness:
  "fetch_stock_data note_env ''MSFT'' empty_world = (Inr None, empty_world\<lparr>n_http := Suc 0\<rparr>)
   \<and> fst (process_symbol note_env ''MSFT'' empty_world) = FetchFailed"
proof -
  have h1: "http_reply note_env (n_http empty_world) ''MSFT'' =
      Body [(''Note'', JString ''Thank you for using Alpha Vantage!'')]"
    by (simp add: note_env_def offline_env_def)
  have h2: "has_key ''Note'' [(''Note'', JString ''Thank you for using Alpha Vantage!'')]"
    by (simp add: has_key_def)
  show ?thesis using fetch_note_returns_none[OF h1 h2] by (simp add: empty_world_def)
qed

subsection \<open>The store\<close>

text \<open>
  C8: given no records, the store returns \<open>False\<close> (a return, not an exception) and
  leaves the whole state as it was: no row written, no connection attempted or opened.
\<close>

theorem save_empty:
  "save_to_database e [] w = (Inr False, w)"
  by (simp add: save_to_database_def)

theorem save_empty_witness:
  "save_to_database offline_env [] one_row_world = (Inr False, one_row_world)"
  by (rule save_empty)

text \<open>
  C5: every exit path after the connection was acquired releases cursor and connection. When
  \<open>connection.cursor()\<close> raises this fails: the \<open>finally\<close> clause raises
  \<open>UnboundLocalError\<close> at \<open>cursor.close()\<close> and the connection stays open.
\<close>

theorem save_cursor_failure_leaks:
  "save_to_database no_cursor_env [aapl_record 150] empty_world =
     (Inl UnboundLocalError, empty_world\<lparr>n_connect := 1, open_connections := 1\<rparr>)"
  by (simp add: save_to_database_def no_cursor_env_def offline_env_def no_faults_def
      empty_world_def aapl_record_def)

text \<open>On every path where the cursor was bound, both are released.\<close>

lemma save_releases_when_cursor_bound:
  assumes "save_to_database e rs w = (r, w')"
    and "\<not> cursor_fails (db_faults_of e (n_connect w))"
  shows "open_connections w' = open_connections w \<and> open_cursors w' = open_cursors w"
  using assms unfolding save_to_database_def Let_def except_rollback_def finally_close_def
  by (auto split: if_splits option.splits)

subsection \<open>The runner\<close>

text \<open>
  C9: on an empty list of symbols the runner returns \<open>True\<close> and leaves the state as
  it was: no request, no connection, no trace.
\<close>

theorem run_pipeline_empty: "run_pipeline e (Some []) w = (True, w)"
  by (simp add: run_pipeline_def)

theorem run_pipeline_empty_witness:
  "run_pipeline offline_env (Some []) empty_world = (True, empty_world)"
  by (rule run_pipeline_empty)





subsection \<open>The upsert\<close>

lemma row_key_do_update: "row_key (do_update now r x) = row_key x"
  by (simp add: row_key_def do_update_def)

lemma row_key_new_row: "row_key (new_row c r) = row_key r"
  by (simp add: row_key_def new_row_def)

lemma do_update_twice: "do_update t2 r2 (do_update t1 r1 x) = do_update t2 r2 x"
  by (simp add: do_update_def)

lemma keys_upsert:
  "map row_key (upsert dflt now r tbl) =
     (if row_key r \<in> set (map row_key tbl) then map row_key tbl
      else map row_key tbl @ [row_key r])"
  by (induction tbl) (auto simp: row_key_do_update row_key_new_row)

lemma distinct_upsert:
  "distinct (map row_key tbl) \<Longrightarrow> distinct (map row_key (upsert dflt now r tbl))"
  by (simp add: keys_upsert)

lemma lookup_upsert:
  "lookup_row k (upsert dflt now r tbl) =
     (if k = row_key r
      then Some (case lookup_row k tbl of Some x \<Rightarrow> do_update now r x
                 | None \<Rightarrow> new_row (dflt now) r)
      else lookup_row k tbl)"
  by (induction tbl) (auto simp: lookup_row_def row_key_do_update row_key_new_row)

lemma find_app:
  "find P (xs @ ys) = (case find P xs of None \<Rightarrow> find P ys | Some x \<Rightarrow> Some x)"
  by (induction xs) auto

lemma last_with_key_Cons:
  "last_with_key k (r # rs) =
     (case last_with_key k rs of Some r' \<Rightarrow> Some r'
      | None \<Rightarrow> if row_key r = k then Some r else None)"
  by (simp add: last_with_key_def find_app split: option.splits)

lemma executemany_lookup:
  "executemany dflt now fail rs tbl = Some tbl' \<Longrightarrow> lookup_row k tbl = Some x \<Longrightarrow>
   lookup_row k tbl' =
     Some (case last_with_key k rs of None \<Rightarrow> x | Some r \<Rightarrow> do_update now r x)"
proof (induction rs arbitrary: fail tbl x)
  case Nil
  then show ?case by (simp add: last_with_key_def)
next
  case (Cons r rs)
  from Cons.prems(1) have
    ex: "executemany dflt now (map_option (\<lambda>k. k - 1) fail) rs (upsert dflt now r tbl) = Some tbl'"
    by (simp split: if_splits)
  show ?case
  proof (cases "row_key r = k")
    case True
    then have "lookup_row k (upsert dflt now r tbl) = Some (do_update now r x)"
      using Cons.prems(2) by (simp add: lookup_upsert)
    from Cons.IH[OF ex this] True show ?thesis
      by (simp add: last_with_key_Cons do_update_twice split: option.splits)
  next
    case False
    then have "lookup_row k (upsert dflt now r tbl) = Some x"
      using Cons.prems(2) by (auto simp: lookup_upsert)
    from Cons.IH[OF ex this] False show ?thesis
      by (simp add: last_with_key_Cons split: option.splits)
  qed
qed

lemma executemany_distinct:
  "executemany dflt now fail rs tbl = Some tbl' \<Longrightarrow> distinct (map row_key tbl) \<Longrightarrow>
   distinct (map row_key tbl')"
proof (induction rs arbitrary: fail tbl)
  case Nil
  then show ?case by simp
next
  case (Cons r rs)
  from Cons.prems(1) have
    ex: "executemany dflt now (map_option (\<lambda>k. k - 1) fail) rs (upsert dflt now r tbl) = Some tbl'"
    by (simp split: if_splits)
  from Cons.IH[OF ex distinct_upsert[OF Cons.prems(2)]] show ?case .
qed

lemma executemany_keys:
  "executemany dflt now fail rs tbl = Some tbl' \<Longrightarrow>
   set (map row_key tbl') = set (map row_key tbl) \<union> row_key ` set rs"
proof (induction rs arbitrary: fail tbl)
  case Nil
  then show ?case by simp
next
  case (Cons r rs)
  from Cons.prems(1) have
    ex: "executemany dflt now (map_option (\<lambda>k. k - 1) fail) rs (upsert dflt now r tbl) = Some tbl'"
    by (simp split: if_splits)
  from Cons.IH[OF ex] show ?case by (auto simp: keys_upsert split: if_splits)
qed

lemma executemany_keys_present:
  "executemany dflt now fail rs tbl = Some tbl' \<Longrightarrow> row_key ` set rs \<subseteq> set (map row_key tbl) \<Longrightarrow>
   map row_key tbl' = map row_key tbl"
proof (induction rs arbitrary: fail tbl)
  case Nil
  then show ?case by simp
next
  case (Cons r rs)
  from Cons.prems(1) have
    ex: "executemany dflt now (map_option (\<lambda>k. k - 1) fail) rs (upsert dflt now r tbl) = Some tbl'"
    by (simp split: if_splits)
  have k: "map row_key (upsert dflt now r tbl) = map row_key tbl"
    using Cons.prems(2) by (simp add: keys_upsert)
  from Cons.IH[OF ex] k Cons.prems(2) show ?case by simp
qed

lemma last_with_key_in_set: "last_with_key k rs = Some r \<Longrightarrow> r \<in> set rs \<and> row_key r = k"
proof (induction rs)
  case Nil
  then show ?case by (simp add: last_with_key_def)
next
  case (Cons a rs)
  then show ?case by (auto simp: last_with_key_Cons split: option.splits if_splits)
qed

lemma lookup_row_present:
  "k \<in> set (map row_key tbl) \<Longrightarrow> \<exists>y. lookup_row k tbl = Some y"
  by (cases "lookup_row k tbl") (auto simp: lookup_row_def find_None_iff)

text \<open>What a successful call of the store did.\<close>

lemma save_True:
  assumes "save_to_database e rs w = (Inr True, w')"
  shows "executemany (created_default e) (txn_time (db_faults_of e (n_connect w)))
           (execute_fails_at (db_faults_of e (n_connect w))) rs (table w) = Some (table w')
         \<and> n_connect w' = Suc (n_connect w)"
  using assms unfolding save_to_database_def Let_def except_rollback_def finally_close_def
  by (auto split: if_splits option.splits)

text \<open>
  C2, as the specification states it: an update of an existing key leaves \<open>created_at\<close>
  as it was. The statement sets \<open>created_at = CURRENT_TIMESTAMP\<close> in its
  \<open>DO UPDATE SET\<close> list: a row created at time 1 and upserted at time 5 is stamped 5.
\<close>

theorem save_created_at_counterexample:
  "table one_row_world = [new_row (Some 1) (aapl_record 150)]
   \<and> save_to_database offline_env [aapl_record 151] one_row_world =
       (Inr True, one_row_world\<lparr>n_connect := 1, table := [new_row (Some 5) (aapl_record 151)]\<rparr>)"
  by (simp add: save_to_database_def offline_env_def no_faults_def one_row_world_def
      empty_world_def finally_close_def row_key_def new_row_def do_update_def aapl_record_def)

text \<open>
  C2, amended: in a call that succeeds, the row of a key that exists gets the four prices and
  the volume of the last record of the batch with that key, and its \<open>created_at\<close> is set
  to the time of the transaction (\<open>do_update\<close>); symbol and date stay. Storing the same
  batch a second time leaves the same keys, one row per key, with the fields of the batch and
  \<open>created_at\<close> set to the time of the second transaction.
\<close>

theorem save_upsert_restamps:
  assumes first: "save_to_database e records w = (Inr True, w1)"
    and second: "save_to_database e records w1 = (Inr True, w2)"
    and uniq: "distinct (map row_key (table w))"
    and last: "last_with_key k records = Some r"
  shows "(\<forall>x. lookup_row k (table w) = Some x \<longrightarrow>
            lookup_row k (table w1) =
              Some (do_update (txn_time (db_faults_of e (n_connect w))) r x))
         \<and> (\<exists>y. lookup_row k (table w1) = Some y \<and>
                lookup_row k (table w2) =
                  Some (do_update (txn_time (db_faults_of e (n_connect w1))) r y))
         \<and> distinct (map row_key (table w1))
         \<and> distinct (map row_key (table w2))
         \<and> map row_key (table w2) = map row_key (table w1)"
proof -
  let ?t1 = "txn_time (db_faults_of e (n_connect w))"
  let ?t2 = "txn_time (db_faults_of e (n_connect w1))"
  from save_True[OF first] obtain f1 where
    e1: "executemany (created_default e) ?t1 f1 records (table w) = Some (table w1)" by blast
  from save_True[OF second] obtain f2 where
    e2: "executemany (created_default e) ?t2 f2 records (table w1) = Some (table w2)" by blast
  have a: "\<forall>x. lookup_row k (table w) = Some x \<longrightarrow>
            lookup_row k (table w1) = Some (do_update ?t1 r x)"
    using executemany_lookup[OF e1] last by simp
  have d1: "distinct (map row_key (table w1))"
    using executemany_distinct[OF e1 uniq] .
  have d2: "distinct (map row_key (table w2))"
    using executemany_distinct[OF e2 d1] .
  have sub: "row_key ` set records \<subseteq> set (map row_key (table w1))"
    using executemany_keys[OF e1] by blast
  have same: "map row_key (table w2) = map row_key (table w1)"
    using executemany_keys_present[OF e2 sub] .
  have "k \<in> set (map row_key (table w1))"
    using last_with_key_in_set[OF last] sub by blast
  then obtain y where y: "lookup_row k (table w1) = Some y"
    using lookup_row_present by blast
  have b: "lookup_row k (table w2) = Some (do_update ?t2 r y)"
    using executemany_lookup[OF e2 y] last by simp
  from a y b d1 d2 same show ?thesis by blast
qed

theorem save_upsert_restamps_witness:
  "lookup_row (''AAPL'', (2024, 3, 1))
     (table (one_row_world\<lparr>n_connect := 1, table := [new_row (Some 10) (aapl_record 151)]\<rparr>)) =
     Some (do_update 10 (aapl_record 151) (new_row (Some 1) (aapl_record 150)))
   \<and> map created_at
       (table (one_row_world\<lparr>n_connect := 2, table := [new_row (Some 11) (aapl_record 151)]\<rparr>)) =
     [Some 11]"
proof -
  let ?w1 = "one_row_world\<lparr>n_connect := 1, table := [new_row (Some 10) (aapl_record 151)]\<rparr>"
  let ?w2 = "one_row_world\<lparr>n_connect := 2, table := [new_row (Some 11) (aapl_record 151)]\<rparr>"
  have first: "save_to_database clocked_env [aapl_record 151] one_row_world = (Inr True, ?w1)"
    by (simp add: save_to_database_def clocked_env_def offline_env_def no_faults_def
        one_row_world_def empty_world_def finally_close_def row_key_def new_row_def do_update_def
        aapl_record_def)
  have second: "save_to_database clocked_env [aapl_record 151] ?w1 = (Inr True, ?w2)"
    by (simp add: save_to_database_def clocked_env_def offline_env_def no_faults_def
        one_row_world_def empty_world_def finally_close_def row_key_def new_row_def do_update_def
        aapl_record_def)
  have uniq: "distinct (map row_key (table one_row_world))"
    by (simp add: one_row_world_def)
  have last: "last_with_key (''AAPL'', (2024, 3, 1)) [aapl_record 151] = Some (aapl_record 151)"
    by (simp add: last_with_key_def row_key_def aapl_record_def)
  have x: "lookup_row (''AAPL'', (2024, 3, 1)) (table one_row_world) =
      Some (new_row (Some 1) (aapl_record 150))"
    by (simp add: lookup_row_def one_row_world_def row_key_def new_row_def aapl_record_def)
  show ?thesis
    using save_upsert_restamps[OF first second uniq last] x
    by (simp add: clocked_env_def offline_env_def one_row_world_def empty_world_def new_row_def)
qed

subsection \<open>Digits and the order of date keys\<close>

lemma of_char_digit_char: "n < 10 \<Longrightarrow> (of_char (digit_char n) :: nat) = 48 + n"
  by (simp add: digit_char_def)

lemma digit_char_less: "a < 10 \<Longrightarrow> b < 10 \<Longrightarrow> (digit_char a < digit_char b) = (a < b)"
  by (simp add: less_char_def of_char_digit_char)

lemma digit_char_eq: "a < 10 \<Longrightarrow> b < 10 \<Longrightarrow> (digit_char a = digit_char b) = (a = b)"
proof
  assume a: "a < 10" "b < 10" and "digit_char a = digit_char b"
  then have "(of_char (digit_char a) :: nat) = of_char (digit_char b)" by simp
  with a show "a = b" by (simp add: of_char_digit_char)
qed simp

lemma digit_val_digit_char: "n < 10 \<Longrightarrow> digit_val (digit_char n) = Some n"
  by (simp add: digit_val_def of_char_digit_char)

lemma digits_lex:
  "r < (k::nat) \<Longrightarrow> r' < k \<Longrightarrow> (k * q + r < k * q' + r') = (q < q' \<or> q = q' \<and> r < r')"
proof -
  assume r: "r < k" "r' < k"
  show ?thesis
  proof (cases "q < q'")
    case True
    then have "Suc q \<le> q'" by simp
    then have "k * Suc q \<le> k * q'" by (rule mult_le_mono2)
    then have "k * q + r < k * q' + r'" using r by simp
    with True show ?thesis by simp
  next
    case False
    show ?thesis
    proof (cases "q = q'")
      case True
      then show ?thesis by simp
    next
      case ne: False
      with False have "Suc q' \<le> q" by simp
      then have "k * Suc q' \<le> k * q" by (rule mult_le_mono2)
      then have "\<not> k * q + r < k * q' + r'" using r by simp
      with False ne show ?thesis by simp
    qed
  qed
qed

lemma digits_eq:
  "r < (k::nat) \<Longrightarrow> r' < k \<Longrightarrow> (k * q + r = k * q' + r') = (q = q' \<and> r = r')"
  using digits_lex[of r k r' q q'] digits_lex[of r' k r q' q] by (cases "q = q'") auto

lemma pad2_less:
  assumes "a < 100" "b < 100"
  shows "(pad2 a < pad2 b) = (a < b)"
proof -
  have q: "a div 10 < 10" "b div 10 < 10" using assms by simp_all
  have r: "a mod 10 < 10" "b mod 10 < 10" by simp_all
  have m: "a div 10 mod 10 = a div 10" "b div 10 mod 10 = b div 10" using q by simp_all
  have "(pad2 a < pad2 b) =
      (a div 10 < b div 10 \<or> a div 10 = b div 10 \<and> a mod 10 < b mod 10)"
    unfolding pad2_def m using q r by (simp only: Cons_less_Cons digit_char_less digit_char_eq) simp
  also have "\<dots> = (10 * (a div 10) + a mod 10 < 10 * (b div 10) + b mod 10)"
    using r by (simp only: digits_lex)
  also have "\<dots> = (a < b)" by simp
  finally show ?thesis .
qed

lemma pad2_eq:
  assumes "a < 100" "b < 100"
  shows "(pad2 a = pad2 b) = (a = b)"
proof -
  have q: "a div 10 < 10" "b div 10 < 10" using assms by simp_all
  have r: "a mod 10 < 10" "b mod 10 < 10" by simp_all
  have m: "a div 10 mod 10 = a div 10" "b div 10 mod 10 = b div 10" using q by simp_all
  have "(pad2 a = pad2 b) = (a div 10 = b div 10 \<and> a mod 10 = b mod 10)"
    unfolding pad2_def m using q r by (simp only: list.inject digit_char_eq) simp
  also have "\<dots> = (10 * (a div 10) + a mod 10 = 10 * (b div 10) + b mod 10)"
    using r by (simp only: digits_eq)
  also have "\<dots> = (a = b)" by simp
  finally show ?thesis .
qed

lemma pad4_split: "pad4 n = pad2 (n div 100) @ pad2 (n mod 100)"
proof -
  have a: "n div 100 div 10 = n div 1000" by (simp add: div_mult2_eq[symmetric])
  have b: "n mod 100 div 10 mod 10 = n div 10 mod 10"
  proof -
    have "n mod 100 div 10 = n div 10 mod 10"
      using mod_mult2_eq[of n 10 10] by simp
    then show ?thesis by simp
  qed
  have c: "n mod 100 mod 10 = n mod 10"
    by (rule mod_mod_cancel) simp
  have d: "n div 100 mod 10 = n div 100 mod 10" ..
  show ?thesis unfolding pad4_def pad2_def a b c by simp
qed

lemma less_append_same_length:
  "length xs = length xs' \<Longrightarrow>
   (xs @ ys < xs' @ ys') = (xs < xs' \<or> xs = xs' \<and> ys < ys')"
  for xs :: "'a::linorder list"
  by (induction xs xs' rule: list_induct2) auto

lemma length_pad2: "length (pad2 n) = 2"
  by (simp add: pad2_def)

lemma pad4_less:
  assumes "a < 10000" "b < 10000"
  shows "(pad4 a < pad4 b) = (a < b)"
proof -
  have h: "a div 100 < 100" "b div 100 < 100" "a mod 100 < 100" "b mod 100 < 100"
    using assms by simp_all
  have "(pad4 a < pad4 b) =
      (a div 100 < b div 100 \<or> a div 100 = b div 100 \<and> a mod 100 < b mod 100)"
    using h by (simp only: pad4_split less_append_same_length length_pad2 pad2_less pad2_eq)
  also have "\<dots> = (100 * (a div 100) + a mod 100 < 100 * (b div 100) + b mod 100)"
    using h by (simp only: digits_lex)
  also have "\<dots> = (a < b)" by simp
  finally show ?thesis .
qed

lemma pad4_eq:
  assumes "a < 10000" "b < 10000"
  shows "(pad4 a = pad4 b) = (a = b)"
proof -
  have h: "a div 100 < 100" "b div 100 < 100" "a mod 100 < 100" "b mod 100 < 100"
    using assms by simp_all
  have "(pad4 a = pad4 b) = (a div 100 = b div 100 \<and> a mod 100 = b mod 100)"
    using h by (simp add: pad4_split length_pad2 pad2_eq)
  also have "\<dots> = (100 * (a div 100) + a mod 100 = 100 * (b div 100) + b mod 100)"
    using h by (simp only: digits_eq)
  also have "\<dots> = (a = b)" by simp
  finally show ?thesis .
qed

lemma length_pad4: "length (pad4 n) = 4"
  by (simp add: pad4_def)

lemma valid_date_bounds:
  "valid_date (y, m, d) \<Longrightarrow> y < 10000 \<and> m < 100 \<and> d < 100"
  by (auto simp: valid_date_def days_in_month_def split: if_splits)

text \<open>On dates, the order of the keys is the order of the calendar.\<close>

lemma strftime_less:
  assumes "valid_date a" "valid_date b"
  shows "(strftime_ymd a < strftime_ymd b) = (a < b)"
proof -
  obtain y m d where a: "a = (y, m, d)" by (cases a)
  obtain y' m' d' where b: "b = (y', m', d')" by (cases b)
  from assms a b valid_date_bounds have
    h: "y < 10000" "m < 100" "d < 100" "y' < 10000" "m' < 100" "d' < 100"
    by blast+
  have "(strftime_ymd a < strftime_ymd b) =
      (pad4 y < pad4 y' \<or> pad4 y = pad4 y' \<and>
         (pad2 m < pad2 m' \<or> pad2 m = pad2 m' \<and> pad2 d < pad2 d'))"
    unfolding a b strftime_ymd_def
    by (simp add: less_append_same_length length_pad4 length_pad2)
  also have "\<dots> = (y < y' \<or> y = y' \<and> (m < m' \<or> m = m' \<and> d < d'))"
    using h by (simp add: pad4_less pad4_eq pad2_less pad2_eq)
  also have "\<dots> = (a < b)"
    unfolding a b by auto
  finally show ?thesis .
qed

lemma strftime_inj:
  assumes "valid_date a" "valid_date b" "strftime_ymd a = strftime_ymd b"
  shows "a = b"
proof (rule ccontr)
  assume "a \<noteq> b"
  then have "a < b \<or> b < a" by auto
  with strftime_less[OF assms(1,2)] strftime_less[OF assms(2,1)] assms(3) show False by auto
qed

lemma strptime_valid: "strptime_ymd k = Some d \<Longrightarrow> valid_date d"
  unfolding strptime_ymd_def
  by (auto split: list.splits option.splits if_splits)

lemma iso_date_keyD:
  "iso_date_key k \<Longrightarrow> strptime_ymd k = Some (key_date k) \<and> valid_date (key_date k) \<and>
     strftime_ymd (key_date k) = k"
  by (auto simp: iso_date_key_def key_date_def strptime_valid split: option.splits)

lemma key_date_less:
  assumes "iso_date_key k" "iso_date_key k'"
  shows "(key_date k < key_date k') = (k < k')"
  using strftime_less[of "key_date k" "key_date k'"] iso_date_keyD[OF assms(1)]
    iso_date_keyD[OF assms(2)] by simp

subsection \<open>The parser\<close>

lemma parse_loop_all:
  "\<forall>k\<in>set ks. parse_entry e s ts k \<noteq> None \<Longrightarrow>
   parse_loop e s ts ks acc = Some (acc @ map (\<lambda>k. the (parse_entry e s ts k)) ks)"
  by (induction ks arbitrary: acc) auto

lemma parse_stock_data_all:
  assumes "map_of data ''Time Series (Daily)'' = Some (JObject ts)"
    and "\<forall>k\<in>set (sorted_dates ts). parse_entry e s ts k \<noteq> None"
  shows "parse_stock_data e data s = map (\<lambda>k. the (parse_entry e s ts k)) (sorted_dates ts)"
  using assms by (simp add: parse_stock_data_def parse_loop_all)

lemma float_field_decimal:
  "decimal_field dd f = Some x \<Longrightarrow> float_field e dd f = Some (fl e x)"
  by (auto simp: decimal_field_def float_field_def py_float_def split: option.splits json.splits)

lemma parse_entry_values:
  assumes "map_of ts k = Some (JObject dd)"
    and "strptime_ymd k = Some d"
    and "decimal_field dd ''1. open'' = Some po"
    and "decimal_field dd ''2. high'' = Some ph"
    and "decimal_field dd ''3. low'' = Some pl"
    and "decimal_field dd ''4. close'' = Some pc"
    and "int_field dd ''5. volume'' = Some v"
  shows "parse_entry e s ts k =
     Some \<lparr>symbol = s, date = d, open_price = fl e po, high_price = fl e ph,
           low_price = fl e pl, close_price = fl e pc, volume = v\<rparr>"
  using assms by (simp add: parse_entry_def float_field_decimal)

lemma parse_entry_ok:
  assumes "map_of ts k = Some v" "iso_date_key k" "numeric_fields v"
  shows "\<exists>r. parse_entry e s ts k = Some r \<and> date r = key_date k \<and> symbol r = s"
proof -
  from assms(3) obtain dd where v: "v = JObject dd"
    by (cases v) (auto simp: numeric_fields_def)
  from assms(3) v obtain po ph pl pc vol where
    f: "decimal_field dd ''1. open'' = Some po" "decimal_field dd ''2. high'' = Some ph"
       "decimal_field dd ''3. low'' = Some pl" "decimal_field dd ''4. close'' = Some pc"
       "int_field dd ''5. volume'' = Some vol"
    by (auto simp: numeric_fields_def)
  from iso_date_keyD[OF assms(2)] have d: "strptime_ymd k = Some (key_date k)" by simp
  from parse_entry_values[OF assms(1)[unfolded v] d f] show ?thesis by simp
qed

lemma sorted_dates_subset: "set (sorted_dates ts) \<subseteq> set (map fst ts)"
  unfolding sorted_dates_def using set_take_subset[of 7 "rev (sort (map fst ts))"] by simp

lemma sorted_dates_desc:
  "distinct (map fst ts) \<Longrightarrow> sorted_wrt (\<lambda>a b. b < a) (rev (sort (map fst ts)))"
  by (simp add: sorted_wrt_rev strict_sorted_iff)

lemma digit_char_num:
  "digit_char 0 = CHR ''0''" "digit_char 1 = CHR ''1''" "digit_char 2 = CHR ''2''"
  "digit_char 3 = CHR ''3''" "digit_char 4 = CHR ''4''" "digit_char 5 = CHR ''5''"
  "digit_char 6 = CHR ''6''" "digit_char 7 = CHR ''7''" "digit_char 8 = CHR ''8''"
  "digit_char 9 = CHR ''9''" "digit_char (Suc 0) = CHR ''1''"
  by (simp_all add: digit_char_def char_of_def bit_Suc_0_iff)

lemmas date_eval =
  iso_date_key_def strptime_ymd_def strftime_ymd_def pad4_def pad2_def digit_char_num
  digit_val_def month_token_def day_token_def valid_date_def days_in_month_def is_leap_def

lemmas field_eval =
  numeric_fields_def decimal_field_def int_field_def decimal_value_def unsigned_decimal_def
  py_int_def nat_of_digits_def digit_val_def

lemma day_fields_numeric: "numeric_fields day_fields"
  by (simp add: day_fields_def field_eval)

text \<open>
  C10: the parser checks no range. When the entries it selected all parse, the entry of a
  selected key whose five fields are numerals yields the record with exactly the values of
  the numerals (each price rounded to a float), whatever their sign and order: nothing is
  assumed of \<open>po\<close>, \<open>ph\<close>, \<open>pl\<close>, \<open>pc\<close> and \<open>v\<close>.
\<close>

theorem parse_no_range_check:
  assumes "map_of data ''Time Series (Daily)'' = Some (JObject ts)"
    and "\<forall>k \<in> set (sorted_dates ts). parse_entry e symb ts k \<noteq> None"
    and "k \<in> set (sorted_dates ts)"
    and "map_of ts k = Some (JObject dd)"
    and "strptime_ymd k = Some d"
    and "decimal_field dd ''1. open'' = Some po"
    and "decimal_field dd ''2. high'' = Some ph"
    and "decimal_field dd ''3. low'' = Some pl"
    and "decimal_field dd ''4. close'' = Some pc"
    and "int_field dd ''5. volume'' = Some v"
  shows "\<lparr>symbol = symb, date = d, open_price = fl e po, high_price = fl e ph,
          low_price = fl e pl, close_price = fl e pc, volume = v\<rparr>
         \<in> set (parse_stock_data e data symb)"
proof -
  have "parse_entry e symb ts k =
     Some \<lparr>symbol = symb, date = d, open_price = fl e po, high_price = fl e ph,
           low_price = fl e pl, close_price = fl e pc, volume = v\<rparr>"
    using assms(4-10) by (rule parse_entry_values)
  then have "\<lparr>symbol = symb, date = d, open_price = fl e po, high_price = fl e ph,
          low_price = fl e pl, close_price = fl e pc, volume = v\<rparr>
      \<in> (\<lambda>k. the (parse_entry e symb ts k)) ` set (sorted_dates ts)"
    using assms(3) by force
  then show ?thesis
    unfolding parse_stock_data_all[OF assms(1,2)] by simp
qed

theorem parse_no_range_check_witness:
  "\<lparr>symbol = ''X'', date = (2024, 3, 1), open_price = - (3 / 2), high_price = 2,
     low_price = 3, close_price = 0, volume = 0\<rparr>
   \<in> set (parse_stock_data offline_env bad_day_body ''X'')"
proof -
  let ?dd = "[(''1. open'', JString ''-1.50''), (''2. high'', JString ''2.00''),
              (''3. low'', JString ''3.00''), (''4. close'', JString ''0.00''),
              (''5. volume'', JString ''0'')]"
  let ?ts = "[(''2024-03-01'', JObject ?dd)]"
  have a1: "map_of bad_day_body ''Time Series (Daily)'' = Some (JObject ?ts)"
    by (simp add: bad_day_body_def)
  have a4: "map_of ?ts ''2024-03-01'' = Some (JObject ?dd)" by simp
  have a5: "strptime_ymd ''2024-03-01'' = Some (2024, 3, 1)"
    by (simp add: date_eval)
  have a6: "decimal_field ?dd ''1. open'' = Some (- (3 / 2))" by (simp add: field_eval)
  have a7: "decimal_field ?dd ''2. high'' = Some 2" by (simp add: field_eval)
  have a8: "decimal_field ?dd ''3. low'' = Some 3" by (simp add: field_eval)
  have a9: "decimal_field ?dd ''4. close'' = Some 0" by (simp add: field_eval)
  have a10: "int_field ?dd ''5. volume'' = Some 0" by (simp add: field_eval)
  have a3: "''2024-03-01'' \<in> set (sorted_dates ?ts)" by (simp add: sorted_dates_def)
  have a2: "\<forall>k \<in> set (sorted_dates ?ts). parse_entry offline_env ''X'' ?ts k \<noteq> None"
    using parse_entry_values[OF a4 a5 a6 a7 a8 a9 a10, of offline_env "''X''"]
    by (simp add: sorted_dates_def)
  show ?thesis
    using parse_no_range_check[OF a1 a2 a3 a4 a5 a6 a7 a8 a9 a10]
    by (simp add: offline_env_def)
qed

text \<open>Such a record reaches the table: the store checks no range either.\<close>

lemma bad_day_parsed:
  "parse_stock_data bad_day_env bad_day_body ''X'' =
     [\<lparr>symbol = ''X'', date = (2024, 3, 1), open_price = - (3 / 2), high_price = 2,
       low_price = 3, close_price = 0, volume = 0\<rparr>]"
  by (simp add: bad_day_body_def bad_day_env_def offline_env_def parse_eval)

lemma bad_day_stored:
  "process_symbol bad_day_env ''X'' empty_world =
     (StoredOk,
      empty_world\<lparr>n_http := 1, n_connect := 1,
        table := [new_row (Some 5) \<lparr>symbol = ''X'', date = (2024, 3, 1), open_price = - (3 / 2),
                    high_price = 2, low_price = 3, close_price = 0, volume = 0\<rparr>],
        events := [Processing ''X'', Succeeded ''X'', Sleep 12]\<rparr>)"
proof -
  have f: "fetch_stock_data bad_day_env ''X'' (log_line (Processing ''X'') empty_world) =
      (Inr (Some bad_day_body), (log_line (Processing ''X'') empty_world)\<lparr>n_http := 1\<rparr>)"
    by (simp add: fetch_stock_data_def log_line_def bad_day_env_def offline_env_def
      empty_world_def has_key_def Let_def bad_day_body_def)
  have n: "bad_day_body \<noteq> []" by (simp add: bad_day_body_def)
  show ?thesis
    using n
    by (simp add: process_symbol_def f Let_def bad_day_parsed)
       (simp add: save_to_database_def Let_def bad_day_env_def offline_env_def
        no_faults_def finally_close_def log_line_def empty_world_def)
qed

text \<open>
  C3: for a response whose time series has \<open>N\<close> entries with distinct keys, each key
  the ISO form of a date and each entry with five numeral fields, the parser returns
  \<open>min N 7\<close> records, their dates strictly descending (so without duplicates), taken from
  the dates present, and every date present that is not returned is earlier than every
  date returned.
\<close>

theorem parse_seven_most_recent:
  assumes ts: "map_of data ''Time Series (Daily)'' = Some (JObject ts)"
    and uniq: "distinct (map fst ts)"
    and wf: "\<forall>(k, v) \<in> set ts. iso_date_key k \<and> numeric_fields v"
  shows "length (parse_stock_data e data symb) = min (length ts) 7
     \<and> sorted_wrt (\<lambda>a b. b < a) (map date (parse_stock_data e data symb))
     \<and> distinct (map date (parse_stock_data e data symb))
     \<and> set (map date (parse_stock_data e data symb)) \<subseteq> key_date ` set (map fst ts)
     \<and> (\<forall>d \<in> key_date ` set (map fst ts).
          d \<notin> set (map date (parse_stock_data e data symb)) \<longrightarrow>
          (\<forall>d' \<in> set (map date (parse_stock_data e data symb)). d < d'))"
proof -
  let ?keys = "map fst ts"
  let ?L = "rev (sort ?keys)"
  let ?ks = "sorted_dates ts"
  have iso: "iso_date_key k" if "k \<in> set ?keys" for k
    using that wf by auto
  have ok: "\<exists>r. parse_entry e symb ts k = Some r \<and> date r = key_date k \<and> symbol r = symb"
    if "k \<in> set ?keys" for k
  proof -
    from that obtain v where v: "map_of ts k = Some v"
      by (cases "map_of ts k") (auto simp: map_of_eq_None_iff)
    then have "(k, v) \<in> set ts" by (rule map_of_SomeD)
    with wf have "iso_date_key k" "numeric_fields v" by auto
    with v show ?thesis by (rule parse_entry_ok)
  qed
  have sub: "set ?ks \<subseteq> set ?keys" by (rule sorted_dates_subset)
  have all: "\<forall>k\<in>set ?ks. parse_entry e symb ts k \<noteq> None"
  proof
    fix k assume "k \<in> set ?ks"
    with sub have "k \<in> set ?keys" by (rule subsetD)
    from ok[OF this] obtain r where "parse_entry e symb ts k = Some r" by blast
    then show "parse_entry e symb ts k \<noteq> None" by simp
  qed
  have res: "parse_stock_data e data symb = map (\<lambda>k. the (parse_entry e symb ts k)) ?ks"
    using ts all by (rule parse_stock_data_all)
  have dates: "map date (parse_stock_data e data symb) = map key_date ?ks"
    unfolding res map_map
  proof (rule map_cong[OF refl])
    fix k assume "k \<in> set ?ks"
    with sub have "k \<in> set ?keys" by (rule subsetD)
    from ok[OF this] obtain r where "parse_entry e symb ts k = Some r" "date r = key_date k"
      by blast
    then show "(date \<circ> (\<lambda>k. the (parse_entry e symb ts k))) k = key_date k" by simp
  qed
  have len: "length (parse_stock_data e data symb) = min (length ts) 7"
    unfolding res by (simp add: sorted_dates_def)
  have descL: "sorted_wrt (\<lambda>a b. b < a) ?L" using uniq by (rule sorted_dates_desc)
  have split: "?L = ?ks @ drop 7 ?L" by (simp add: sorted_dates_def)
  have desc_ks: "sorted_wrt (\<lambda>a b. b < a) ?ks"
    unfolding sorted_dates_def using descL by (rule sorted_wrt_take)
  have mono: "key_date b < key_date a" if "a \<in> set ?keys" "b \<in> set ?keys" "b < a" for a b
    using key_date_less[OF iso[OF that(2)] iso[OF that(1)]] that(3) by simp
  have desc: "sorted_wrt (\<lambda>a b. b < a) (map date (parse_stock_data e data symb))"
    unfolding dates sorted_wrt_map
    by (rule sorted_wrt_mono_rel[OF _ desc_ks]) (use sub mono in blast)
  have dist: "distinct (map date (parse_stock_data e data symb))"
    using desc strict_sorted_iff[of "rev (map date (parse_stock_data e data symb))"]
    by (simp add: sorted_wrt_rev)
  have subset: "set (map date (parse_stock_data e data symb)) \<subseteq> key_date ` set ?keys"
    unfolding dates using sub by auto
  have recent: "d < d'"
    if d: "d \<in> key_date ` set ?keys" "d \<notin> set (map date (parse_stock_data e data symb))"
      and d': "d' \<in> set (map date (parse_stock_data e data symb))" for d d'
  proof -
    from d(1) obtain k where k: "k \<in> set ?keys" "d = key_date k" by auto
    from d(2) k have "k \<notin> set ?ks" unfolding dates by auto
    moreover have "k \<in> set ?L" using k(1) by simp
    ultimately have kd: "k \<in> set (drop 7 ?L)"
      using split by (metis Un_iff set_append)
    from d' obtain k' where k': "k' \<in> set ?ks" "d' = key_date k'" unfolding dates by auto
    from descL split have "sorted_wrt (\<lambda>a b. b < a) (?ks @ drop 7 ?L)" by simp
    then have "k < k'" using k'(1) kd unfolding sorted_wrt_append by blast
    with mono[of k' k] k k' sub show ?thesis by auto
  qed
  from len desc dist subset recent show ?thesis by blast
qed

theorem parse_seven_most_recent_witness:
  "length eight_days = 8
   \<and> length (parse_stock_data offline_env eight_days_body ''AAPL'') = 7
   \<and> sorted_wrt (\<lambda>a b. b < a) (map date (parse_stock_data offline_env eight_days_body ''AAPL''))
   \<and> distinct (map date (parse_stock_data offline_env eight_days_body ''AAPL''))"
proof -
  have ts: "map_of eight_days_body ''Time Series (Daily)'' = Some (JObject eight_days)"
    by (simp add: eight_days_body_def)
  have uniq: "distinct (map fst eight_days)"
    by (simp add: eight_days_def)
  have wf: "\<forall>(k, v) \<in> set eight_days. iso_date_key k \<and> numeric_fields v"
    by (simp add: eight_days_def day_fields_numeric date_eval)
  have len: "length eight_days = 8" by (simp add: eight_days_def)
  show ?thesis
    using parse_seven_most_recent[OF ts uniq wf, of offline_env "''AAPL''"] len by simp
qed

section \<open>The demo data generator\<close>

subsection \<open>Numerals written and read back\<close>

lemma digits_val_append:
  "digits_val (xs @ ys) acc =
     (case digits_val xs acc of None \<Rightarrow> None | Some a \<Rightarrow> digits_val ys a)"
  by (induction xs arbitrary: acc) (auto split: option.splits)

lemma digits_val_str_nat: "digits_val (str_nat n) 0 = Some n"
proof (induction n rule: str_nat.induct)
  case (1 n)
  show ?case
  proof (cases "n < 10")
    case True
    then show ?thesis by (simp add: str_nat.simps[of n] digit_val_digit_char)
  next
    case False
    have d: "digit_val (digit_char (n mod 10)) = Some (n mod 10)"
      by (rule digit_val_digit_char) simp
    from False 1 have "digits_val (str_nat (n div 10)) 0 = Some (n div 10)" by simp
    with False d show ?thesis
      by (simp add: str_nat.simps[of n] digits_val_append)
  qed
qed

lemma str_nat_chars: "c \<in> set (str_nat n) \<Longrightarrow> \<exists>d<10. c = digit_char d"
proof (induction n rule: str_nat.induct)
  case (1 n)
  show ?case
  proof (cases "n < 10")
    case True
    with 1(2) show ?thesis by (auto simp: str_nat.simps[of n])
  next
    case False
    with 1(2) have "c \<in> set (str_nat (n div 10)) \<or> c = digit_char (n mod 10)"
      by (auto simp: str_nat.simps[of n])
    then show ?thesis
    proof
      assume "c \<in> set (str_nat (n div 10))"
      with 1(1) False show ?thesis by simp
    next
      assume "c = digit_char (n mod 10)"
      moreover have "n mod 10 < 10" by simp
      ultimately show ?thesis by blast
    qed
  qed
qed

lemma str_nat_nonempty: "str_nat n \<noteq> []"
  by (cases "n < 10") (simp_all add: str_nat.simps[of n])

lemma digit_char_not_sign:
  "d < 10 \<Longrightarrow> digit_char d \<noteq> CHR ''.'' \<and> digit_char d \<noteq> CHR ''-'' \<and> digit_char d \<noteq> CHR ''+''"
proof -
  assume d: "d < 10"
  have "(of_char (digit_char d) :: nat) \<noteq> of_char CHR ''.''"
    "(of_char (digit_char d) :: nat) \<noteq> of_char CHR ''-''"
    "(of_char (digit_char d) :: nat) \<noteq> of_char CHR ''+''"
    using d by (simp_all add: of_char_digit_char)
  then show ?thesis by auto
qed

lemma str_nat_no_sign:
  "c \<in> set (str_nat n) \<Longrightarrow> c \<noteq> CHR ''.'' \<and> c \<noteq> CHR ''-'' \<and> c \<noteq> CHR ''+''"
proof -
  assume "c \<in> set (str_nat n)"
  then obtain d where "d < 10" "c = digit_char d" using str_nat_chars by blast
  then show ?thesis using digit_char_not_sign by simp
qed

lemma py_int_str_nat: "py_int (str_nat n) = Some (int n)"
proof -
  obtain c cs where s: "str_nat n = c # cs"
    using str_nat_nonempty[of n] by (cases "str_nat n") auto
  then have "c \<in> set (str_nat n)" by simp
  then have "c \<noteq> CHR ''-''" "c \<noteq> CHR ''+''" using str_nat_no_sign by blast+
  moreover have "nat_of_digits (c # cs) = Some n"
    using digits_val_str_nat[of n] s by (simp add: nat_of_digits_def)
  ultimately show ?thesis by (simp add: py_int_def s)
qed

lemma two_digits_val:
  "a < 10 \<Longrightarrow> b < 10 \<Longrightarrow> digits_val [digit_char a, digit_char b] 0 = Some (10 * a + b)"
  by (simp add: digit_val_digit_char)

lemma decimal_value_fmt2:
  assumes "0 \<le> x"
  shows "decimal_value (fmt2 x) = Some (of_nat (cents x) / 100)"
proof -
  let ?c = "cents x"
  let ?ip = "str_nat (?c div 100)"
  let ?fp = "[digit_char (?c mod 100 div 10), digit_char (?c mod 10)]"
  have f: "fmt2 x = ?ip @ CHR ''.'' # ?fp"
    using assms by (simp add: fmt2_def Let_def)
  obtain c cs where s: "?ip = c # cs"
    using str_nat_nonempty[of "?c div 100"] by (cases ?ip) auto
  then have "c \<in> set ?ip" by simp
  then have c: "c \<noteq> CHR ''-''" "c \<noteq> CHR ''+''" using str_nat_no_sign by blast+
  have nodot: "\<And>ch. ch \<in> set ?ip \<Longrightarrow> ch \<noteq> CHR ''.''" using str_nat_no_sign by blast
  have tw: "takeWhile (\<lambda>c. c \<noteq> CHR ''.'') (?ip @ CHR ''.'' # ?fp) = ?ip"
    using nodot by simp
  have dw: "dropWhile (\<lambda>c. c \<noteq> CHR ''.'') (?ip @ CHR ''.'' # ?fp) = CHR ''.'' # ?fp"
    using nodot by simp
  have fp: "digits_val ?fp 0 = Some (10 * (?c mod 100 div 10) + ?c mod 10)"
    by (rule two_digits_val) simp_all
  have fpv: "10 * (?c mod 100 div 10) + ?c mod 10 = ?c mod 100"
  proof -
    have "?c mod 100 mod 10 = ?c mod 10" by (rule mod_mod_cancel) simp
    then show ?thesis using div_mult_mod_eq[of "?c mod 100" 10] by simp
  qed
  have u: "unsigned_decimal (?ip @ CHR ''.'' # ?fp) =
      Some (of_nat (?c div 100) + of_nat (?c mod 100) / 10 ^ 2)"
    unfolding unsigned_decimal_def tw dw Let_def
    using fp fpv digits_val_str_nat[of "?c div 100"] by simp
  have v: "(of_nat (?c div 100) + of_nat (?c mod 100) / 10 ^ 2 :: rat) = of_nat ?c / 100"
  proof -
    have "(of_nat ?c :: rat) = of_nat (100 * (?c div 100) + ?c mod 100)" by simp
    also have "\<dots> = 100 * of_nat (?c div 100) + of_nat (?c mod 100)"
      by (simp only: of_nat_add of_nat_mult of_nat_numeral)
    finally show ?thesis by simp
  qed
  have "decimal_value (?ip @ CHR ''.'' # ?fp) = unsigned_decimal (?ip @ CHR ''.'' # ?fp)"
    using c by (simp add: decimal_value_def s)
  with u v f show ?thesis by simp
qed

subsection \<open>Rounding to hundredths\<close>

lemma round_half_even_mono:
  assumes "0 \<le> x" "x \<le> y"
  shows "round_half_even x \<le> round_half_even y"
proof -
  have fx: "0 \<le> \<lfloor>x\<rfloor>" using assms(1) by simp
  have fxy: "\<lfloor>x\<rfloor> \<le> \<lfloor>y\<rfloor>" using assms(2) by (rule floor_mono)
  show ?thesis
  proof (cases "\<lfloor>x\<rfloor> = \<lfloor>y\<rfloor>")
    case True
    then have "x - of_int \<lfloor>x\<rfloor> \<le> y - of_int \<lfloor>y\<rfloor>" using assms(2) by simp
    with True show ?thesis by (auto simp: round_half_even_def Let_def)
  next
    case False
    with fxy have "\<lfloor>x\<rfloor> + 1 \<le> \<lfloor>y\<rfloor>" by simp
    with fx have "nat \<lfloor>x\<rfloor> + 1 \<le> nat \<lfloor>y\<rfloor>" by arith
    moreover have "round_half_even x \<le> nat \<lfloor>x\<rfloor> + 1"
      by (simp add: round_half_even_def Let_def)
    moreover have "nat \<lfloor>y\<rfloor> \<le> round_half_even y"
      by (simp add: round_half_even_def Let_def)
    ultimately show ?thesis by simp
  qed
qed

lemma cents_mono: "0 \<le> x \<Longrightarrow> x \<le> y \<Longrightarrow> cents x \<le> cents y"
  unfolding cents_def by (rule round_half_even_mono) simp_all

lemma cents_positive:
  assumes "1 / 8 \<le> x"
  shows "0 < cents x"
proof -
  have "(1::rat) \<le> \<bar>x\<bar> * 100" using assms by simp
  then have "1 \<le> \<lfloor>\<bar>x\<bar> * 100\<rfloor>" by (simp add: le_floor_iff)
  then have "1 \<le> nat \<lfloor>\<bar>x\<bar> * 100\<rfloor>" by arith
  moreover have "nat \<lfloor>\<bar>x\<bar> * 100\<rfloor> \<le> round_half_even (\<bar>x\<bar> * 100)"
    by (simp add: round_half_even_def Let_def)
  ultimately show ?thesis unfolding cents_def by simp
qed

subsection \<open>Float arithmetic under a monotone rounding\<close>

lemma fr_mono: "float_rounding f \<Longrightarrow> x \<le> y \<Longrightarrow> f x \<le> f y"
  by (simp add: float_rounding_def)

lemma fr_idem: "float_rounding f \<Longrightarrow> f (f x) = f x"
  by (simp add: float_rounding_def)

lemma fr_zero: "float_rounding f \<Longrightarrow> f 0 = 0"
proof -
  assume "float_rounding f"
  then have "f (- 0) = - f 0" unfolding float_rounding_def by blast
  then show ?thesis by simp
qed

lemma fr_exact:
  "float_rounding f \<Longrightarrow> f 1 = 1 \<and> f (1 / 2) = 1 / 2 \<and> f (1 / 4) = 1 / 4 \<and> f (1 / 8) = 1 / 8"
  by (simp add: float_rounding_def)

lemma fr_neg: "float_rounding f \<Longrightarrow> f (- f x) = - f x"
proof -
  assume a: "float_rounding f"
  then have "f (- f x) = - f (f x)" unfolding float_rounding_def by blast
  with a show ?thesis by (simp add: fr_idem)
qed

text \<open>A literal between 0 and 1/2 stays there.\<close>

lemma lit_bounds:
  assumes "float_rounding (fl e)" "0 \<le> q" "q \<le> 1 / 2"
  shows "0 \<le> lit e q \<and> lit e q \<le> 1 / 2"
proof -
  have "fl e 0 \<le> fl e q" using assms(1,2) by (rule fr_mono)
  moreover have "fl e q \<le> fl e (1 / 2)" using assms(1,3) by (rule fr_mono)
  ultimately show ?thesis using fr_zero[OF assms(1)] fr_exact[OF assms(1)] by (simp add: lit_def)
qed

text \<open>\<open>uniform(-c, c)\<close> is at least \<open>-c\<close>; \<open>uniform(0, c)\<close> lies in \<open>[0, c]\<close>.\<close>

lemma uniform_sym_lower:
  assumes fr: "float_rounding (fl e)" and c: "0 \<le> lit e q" and r: "0 \<le> rand_unit e (n_random w)"
  shows "- lit e q \<le> fst (uniform e (- lit e q) (lit e q) w)"
proof -
  let ?c = "lit e q"
  have "fl e 0 \<le> fl e (?c - - ?c)" using fr by (rule fr_mono) (use c in simp)
  then have w: "0 \<le> fsub e ?c (- ?c)" using fr_zero[OF fr] by (simp add: fsub_def)
  have "fl e 0 \<le> fl e (fsub e ?c (- ?c) * rand_unit e (n_random w))"
    using fr by (rule fr_mono) (use w r in simp)
  then have t: "0 \<le> fmul e (fsub e ?c (- ?c)) (rand_unit e (n_random w))"
    using fr_zero[OF fr] by (simp add: fmul_def)
  have "fl e (- ?c) \<le> fl e (- ?c + fmul e (fsub e ?c (- ?c)) (rand_unit e (n_random w)))"
    using fr by (rule fr_mono) (use t in simp)
  moreover have "fl e (- ?c) = - ?c" unfolding lit_def using fr by (rule fr_neg)
  ultimately show ?thesis by (simp add: uniform_def fadd_def)
qed

lemma uniform_zero_bounds:
  assumes fr: "float_rounding (fl e)" and c: "0 \<le> lit e q"
    and r: "0 \<le> rand_unit e (n_random w)" "rand_unit e (n_random w) < 1"
  shows "0 \<le> fst (uniform e 0 (lit e q) w) \<and> fst (uniform e 0 (lit e q) w) \<le> lit e q"
proof -
  let ?c = "lit e q"
  let ?r = "rand_unit e (n_random w)"
  have cc: "fl e ?c = ?c" unfolding lit_def using fr by (rule fr_idem)
  have w: "fsub e ?c 0 = ?c" using cc by (simp add: fsub_def)
  have "fl e 0 \<le> fl e (?c * ?r)" using fr by (rule fr_mono) (use c r in simp)
  then have t0: "0 \<le> fmul e ?c ?r" using fr_zero[OF fr] by (simp add: fmul_def)
  have "?c * ?r \<le> ?c * 1" using c r by (intro mult_left_mono) simp_all
  then have "fl e (?c * ?r) \<le> fl e ?c" using fr_mono[OF fr] by simp
  then have t1: "fmul e ?c ?r \<le> ?c" using cc by (simp add: fmul_def)
  have tt: "fl e (fmul e ?c ?r) = fmul e ?c ?r"
    unfolding fmul_def using fr by (rule fr_idem)
  have "fst (uniform e 0 ?c w) = fmul e ?c ?r"
    using tt w by (simp add: uniform_def fadd_def)
  with t0 t1 show ?thesis by simp
qed

text \<open>\<open>1 + u\<close> for \<open>u \<ge> -1/2\<close> is at least 1/2, for \<open>u \<ge> 0\<close> at least 1.\<close>

lemma one_plus_lower:
  assumes "float_rounding (fl e)" "- (1 / 2) \<le> u"
  shows "1 / 2 \<le> fadd e 1 u"
proof -
  have "fl e (1 / 2) \<le> fl e (1 + u)" using assms(1) by (rule fr_mono) (use assms(2) in simp)
  then show ?thesis using fr_exact[OF assms(1)] by (simp add: fadd_def)
qed

lemma one_plus_ge_one:
  assumes "float_rounding (fl e)" "0 \<le> u"
  shows "1 \<le> fadd e 1 u"
proof -
  have "fl e 1 \<le> fl e (1 + u)" using assms(1) by (rule fr_mono) (use assms(2) in simp)
  then show ?thesis using fr_exact[OF assms(1)] by (simp add: fadd_def)
qed

lemma one_minus_bounds:
  assumes "float_rounding (fl e)" "0 \<le> u" "u \<le> 1 / 2"
  shows "1 / 2 \<le> fsub e 1 u \<and> fsub e 1 u \<le> 1"
proof -
  have "fl e (1 / 2) \<le> fl e (1 - u)" using assms(1) by (rule fr_mono) (use assms(3) in simp)
  moreover have "fl e (1 - u) \<le> fl e 1" using assms(1) by (rule fr_mono) (use assms(2) in simp)
  ultimately show ?thesis using fr_exact[OF assms(1)] by (simp add: fsub_def)
qed

text \<open>Products: a lower bound, stretching a float upward, shrinking it downward.\<close>

lemma fmul_lower:
  assumes fr: "float_rounding (fl e)" and "a \<le> x" "b \<le> y" "0 \<le> a" "0 \<le> b" "fl e (a * b) = a * b"
  shows "a * b \<le> fmul e x y"
proof -
  have "a * b \<le> x * y" using assms(2-5) by (intro mult_mono) simp_all
  then have "fl e (a * b) \<le> fl e (x * y)" using fr_mono[OF fr] by simp
  with assms(6) show ?thesis by (simp add: fmul_def)
qed

lemma fmul_stretch:
  assumes fr: "float_rounding (fl e)" and "fl e m = m" "0 \<le> m" "1 \<le> y"
  shows "m \<le> fmul e m y"
proof -
  have "m * 1 \<le> m * y" using assms(3,4) by (intro mult_left_mono) simp_all
  then have "fl e m \<le> fl e (m * y)" using fr_mono[OF fr] by simp
  with assms(2) show ?thesis by (simp add: fmul_def)
qed

lemma fmul_shrink:
  assumes fr: "float_rounding (fl e)" and "fl e m = m" "0 \<le> m" "y \<le> 1"
  shows "fmul e m y \<le> m"
proof -
  have "m * y \<le> m * 1" using assms(3,4) by (intro mult_left_mono) simp_all
  then have "fl e (m * y) \<le> fl e m" using fr_mono[OF fr] by simp
  with assms(2) show ?thesis by (simp add: fmul_def)
qed

lemma fmul_float: "float_rounding (fl e) \<Longrightarrow> fl e (fmul e x y) = fmul e x y"
  unfolding fmul_def by (rule fr_idem)

subsection \<open>One day of demo data\<close>

lemma prices_ok:
  assumes fr: "float_rounding (fl e)" and bp: "1 \<le> bp"
    and jit: "- (1 / 2) \<le> jit" and dc: "- (1 / 2) \<le> dc"
    and up: "0 \<le> up" and down: "0 \<le> down" "down \<le> 1 / 2"
    and o: "po = fmul e bp (fadd e 1 jit)"
    and c: "pc = fmul e po (fadd e 1 dc)"
    and h: "ph = fmul e (max po pc) (fadd e 1 up)"
    and l: "pl = fmul e (min po pc) (fsub e 1 down)"
  shows "1 / 8 \<le> pl \<and> pl \<le> min po pc \<and> max po pc \<le> ph \<and> 1 / 2 \<le> po \<and> 1 / 4 \<le> pc"
proof -
  note ex = fr_exact[OF fr]
  have j1: "1 / 2 \<le> fadd e 1 jit" using fr jit by (rule one_plus_lower)
  have d1: "1 / 2 \<le> fadd e 1 dc" using fr dc by (rule one_plus_lower)
  have u1: "1 \<le> fadd e 1 up" using fr up by (rule one_plus_ge_one)
  have n1: "1 / 2 \<le> fsub e 1 down \<and> fsub e 1 down \<le> 1" using fr down by (rule one_minus_bounds)
  have "1 * (1 / 2) \<le> fmul e bp (fadd e 1 jit)"
    using fr bp j1 by (rule fmul_lower) (use ex in simp_all)
  then have po: "1 / 2 \<le> po" using o by simp
  have "(1 / 2) * (1 / 2) \<le> fmul e po (fadd e 1 dc)"
    using fr po d1 by (rule fmul_lower) (use ex in simp_all)
  then have pc: "1 / 4 \<le> pc" using c by simp
  have fo: "fl e po = po" unfolding o using fr by (rule fmul_float)
  have fc: "fl e pc = pc" unfolding c using fr by (rule fmul_float)
  have fmax: "fl e (max po pc) = max po pc" using fo fc by (simp add: max_def)
  have fmin: "fl e (min po pc) = min po pc" using fo fc by (simp add: min_def)
  have max0: "0 \<le> max po pc" using po by simp
  have min4: "1 / 4 \<le> min po pc" using po pc by simp
  have hi: "max po pc \<le> ph" unfolding h using fr fmax max0 u1 by (rule fmul_stretch)
  have lo: "pl \<le> min po pc" unfolding l
    using fr fmin by (rule fmul_shrink) (use min4 n1 in simp_all)
  have "(1 / 4) * (1 / 2) \<le> fmul e (min po pc) (fsub e 1 down)"
    using fr min4 by (rule fmul_lower) (use n1 ex in simp_all)
  then have "1 / 8 \<le> pl" using l by simp
  with lo hi po pc show ?thesis by simp
qed

lemma snd_uniform: "snd (uniform e a b w) = w\<lparr>n_random := Suc (n_random w)\<rparr>"
  by (simp add: uniform_def)

lemma snd_randint: "snd (randint e a b w) = w\<lparr>n_randint := Suc (n_randint w)\<rparr>"
  by (simp add: randint_def)

lemma randint_bounds: "a \<le> b \<Longrightarrow> a \<le> fst (randint e a b w) \<and> fst (randint e a b w) \<le> b"
proof -
  assume "a \<le> b"
  have "rand_nat e (n_randint w) mod (b - a + 1) < b - a + 1" by simp
  then have "rand_nat e (n_randint w) mod (b - a + 1) \<le> b - a" by arith
  with \<open>a \<le> b\<close> have "a + rand_nat e (n_randint w) mod (b - a + 1) \<le> b" by arith
  then show ?thesis by (simp add: randint_def)
qed

lemma formatted_ok:
  assumes "1 / 8 \<le> pl" "pl \<le> min po pc" "max po pc \<le> ph" "1 / 2 \<le> po" "1 / 4 \<le> pc"
    and "1000000 \<le> vol" "vol \<le> 10000000"
  shows "ohlc_ok (JObject [(''1. open'', JString (fmt2 po)), (''2. high'', JString (fmt2 ph)),
                           (''3. low'', JString (fmt2 pl)), (''4. close'', JString (fmt2 pc)),
                           (''5. volume'', JString (str_nat vol))])"
proof -
  have nn: "0 \<le> po" "0 \<le> ph" "0 \<le> pl" "0 \<le> pc" using assms by simp_all
  have ge: "1 / 8 \<le> po" "1 / 8 \<le> pc" "1 / 8 \<le> ph" using assms by simp_all
  have pos: "0 < cents po" "0 < cents ph" "0 < cents pl" "0 < cents pc"
    using ge assms(1) by (simp_all add: cents_positive)
  have lo: "cents pl \<le> cents po" "cents pl \<le> cents pc"
    using assms(2) nn by (simp_all add: cents_mono)
  have hi: "cents po \<le> cents ph" "cents pc \<le> cents ph"
    using assms(3) nn by (simp_all add: cents_mono)
  have dv: "decimal_value (fmt2 po) = Some (of_nat (cents po) / 100)"
    "decimal_value (fmt2 ph) = Some (of_nat (cents ph) / 100)"
    "decimal_value (fmt2 pl) = Some (of_nat (cents pl) / 100)"
    "decimal_value (fmt2 pc) = Some (of_nat (cents pc) / 100)"
    using nn by (simp_all add: decimal_value_fmt2)
  have r: "(of_nat (cents pl) / 100 :: rat) \<le> min (of_nat (cents po) / 100) (of_nat (cents pc) / 100)"
    "max (of_nat (cents po) / 100) (of_nat (cents pc) / 100) \<le> (of_nat (cents ph) / 100 :: rat)"
    "(0::rat) < of_nat (cents po) / 100" "(0::rat) < of_nat (cents ph) / 100"
    "(0::rat) < of_nat (cents pl) / 100" "(0::rat) < of_nat (cents pc) / 100"
    using lo hi pos by (simp_all add: divide_right_mono)
  show ?thesis
    unfolding ohlc_ok_def decimal_field_def int_field_def
    using dv r assms(6,7) by (simp add: py_int_str_nat)
qed

lemma demo_entry_ok:
  assumes fr: "float_rounding (fl e)"
    and ru: "\<forall>k. 0 \<le> rand_unit e k \<and> rand_unit e k < 1"
    and bp: "1 \<le> bp"
    and md: "minus_days (clock_date e (n_clock w)) i = Some d"
  shows "\<exists>v w'. demo_entry e bp i w = (Inr (strftime_ymd d, v), w') \<and> ohlc_ok v \<and>
           n_clock w' = Suc (n_clock w)"
proof -
  define w1 where "w1 = w\<lparr>n_clock := Suc (n_clock w)\<rparr>"
  define c5 where "c5 = lit e (5 / 100)"
  define c2 where "c2 = lit e (2 / 100)"
  define c3 where "c3 = lit e (3 / 100)"
  define dc where "dc = fst (uniform e (- c5) c5 w1)"
  define w2 where "w2 = snd (uniform e (- c5) c5 w1)"
  define jit where "jit = fst (uniform e (- c2) c2 w2)"
  define w3 where "w3 = snd (uniform e (- c2) c2 w2)"
  define po where "po = fmul e bp (fadd e 1 jit)"
  define pc where "pc = fmul e po (fadd e 1 dc)"
  define up where "up = fst (uniform e 0 c3 w3)"
  define w4 where "w4 = snd (uniform e 0 c3 w3)"
  define ph where "ph = fmul e (max po pc) (fadd e 1 up)"
  define down where "down = fst (uniform e 0 c3 w4)"
  define w5 where "w5 = snd (uniform e 0 c3 w4)"
  define pl where "pl = fmul e (min po pc) (fsub e 1 down)"
  define vol where "vol = fst (randint e 1000000 10000000 w5)"
  define w6 where "w6 = snd (randint e 1000000 10000000 w5)"
  define v where "v = JObject [(''1. open'', JString (fmt2 po)), (''2. high'', JString (fmt2 ph)),
                           (''3. low'', JString (fmt2 pl)), (''4. close'', JString (fmt2 pc)),
                           (''5. volume'', JString (str_nat vol))]"
  have eq: "demo_entry e bp i w = (Inr (strftime_ymd d, v), w6)"
    unfolding demo_entry_def Let_def using md
    by (simp add: split_beta w1_def c5_def c2_def c3_def dc_def w2_def jit_def w3_def po_def
        pc_def up_def w4_def ph_def down_def w5_def pl_def vol_def w6_def v_def)
  have clk: "n_clock w6 = Suc (n_clock w)"
    by (simp add: w6_def w5_def w4_def w3_def w2_def w1_def snd_uniform snd_randint)
  have b5: "0 \<le> c5 \<and> c5 \<le> 1 / 2" unfolding c5_def using fr by (rule lit_bounds) simp_all
  have b2: "0 \<le> c2 \<and> c2 \<le> 1 / 2" unfolding c2_def using fr by (rule lit_bounds) simp_all
  have b3: "0 \<le> c3 \<and> c3 \<le> 1 / 2" unfolding c3_def using fr by (rule lit_bounds) simp_all
  have "- c5 \<le> dc" unfolding dc_def c5_def
    using fr by (rule uniform_sym_lower) (use b5 ru in \<open>simp_all add: c5_def\<close>)
  then have dc: "- (1 / 2) \<le> dc" using b5 by simp
  have "- c2 \<le> jit" unfolding jit_def c2_def
    using fr by (rule uniform_sym_lower) (use b2 ru in \<open>simp_all add: c2_def\<close>)
  then have jit: "- (1 / 2) \<le> jit" using b2 by simp
  have "0 \<le> up \<and> up \<le> c3" unfolding up_def c3_def
    using fr by (rule uniform_zero_bounds) (use b3 ru in \<open>simp_all add: c3_def\<close>)
  then have up: "0 \<le> up" by simp
  have "0 \<le> down \<and> down \<le> c3" unfolding down_def c3_def
    using fr by (rule uniform_zero_bounds) (use b3 ru in \<open>simp_all add: c3_def\<close>)
  then have down: "0 \<le> down" "down \<le> 1 / 2" using b3 by simp_all
  have p: "1 / 8 \<le> pl \<and> pl \<le> min po pc \<and> max po pc \<le> ph \<and> 1 / 2 \<le> po \<and> 1 / 4 \<le> pc"
    using fr bp jit dc up down po_def pc_def ph_def pl_def by (rule prices_ok)
  have vb: "1000000 \<le> vol \<and> vol \<le> 10000000"
    unfolding vol_def by (rule randint_bounds) simp
  have "ohlc_ok v" unfolding v_def by (rule formatted_ok) (use p vb in simp_all)
  with eq clk show ?thesis by blast
qed

subsection \<open>The days before a date\<close>

lemma days_in_month_bounds: "28 \<le> days_in_month y m \<and> days_in_month y m \<le> 31"
  by (simp add: days_in_month_def)

lemma prev_day_valid:
  assumes "valid_date d" "prev_day d = Some p"
  shows "valid_date p \<and> p < d \<and> fst d \<le> Suc (fst p)"
proof -
  obtain y m dd where d: "d = (y, m, dd)" by (cases d)
  show ?thesis
  proof (cases "1 < dd")
    case True
    with assms show ?thesis by (auto simp: d valid_date_def prev_day_def)
  next
    case False
    note day1 = this
    show ?thesis
    proof (cases "1 < m")
      case True
      have "1 \<le> days_in_month y (m - 1)" using days_in_month_bounds[of y "m - 1"] by simp
      with True day1 assms show ?thesis by (auto simp: d valid_date_def prev_day_def)
    next
      case False
      with day1 assms show ?thesis
        by (auto simp: d valid_date_def prev_day_def days_in_month_def split: if_splits)
    qed
  qed
qed

lemma prev_day_defined: "1 < fst d \<Longrightarrow> \<exists>p. prev_day d = Some p"
  by (cases d) (auto simp: prev_day_def)

lemma upt_Suc_shift: "[0..<Suc n] = 0 # map Suc [0..<n]"
proof -
  have "[0..<Suc n] = 0 # [Suc 0..<Suc n]" by (rule upt_conv_Cons) simp
  then show ?thesis by (simp only: map_Suc_upt)
qed

lemma recent_dates_props:
  "valid_date d \<Longrightarrow> n < fst d \<Longrightarrow>
   length (recent_dates d n) = n \<and>
   (\<forall>x \<in> set (recent_dates d n). valid_date x \<and> x \<le> d) \<and>
   sorted_wrt (\<lambda>a b. b < a) (recent_dates d n) \<and>
   map (minus_days d) [0..<n] = map Some (recent_dates d n)"
proof (induction n arbitrary: d)
  case 0
  then show ?case by simp
next
  case (Suc n)
  from Suc.prems(2) have "1 < fst d" by simp
  then obtain p where p: "prev_day d = Some p" using prev_day_defined by blast
  from prev_day_valid[OF Suc.prems(1) p] have
    pv: "valid_date p" and pd: "p < d" and py: "fst d \<le> Suc (fst p)" by simp_all
  from py Suc.prems(2) have "n < fst p" by simp
  from Suc.IH[OF pv this] have
    len: "length (recent_dates p n) = n"
    and all: "\<forall>x \<in> set (recent_dates p n). valid_date x \<and> x \<le> p"
    and srt: "sorted_wrt (\<lambda>a b. b < a) (recent_dates p n)"
    and md: "map (minus_days p) [0..<n] = map Some (recent_dates p n)"
    by simp_all
  have r: "recent_dates d (Suc n) = d # recent_dates p n" using p by simp
  have below: "\<forall>x \<in> set (recent_dates p n). x < d" using all pd by auto
  have m: "map (minus_days d) [0..<Suc n] = Some d # map (minus_days p) [0..<n]"
    unfolding upt_Suc_shift using p by (simp add: comp_def)
  have a: "length (recent_dates d (Suc n)) = Suc n" unfolding r using len by simp
  have b: "\<forall>x \<in> set (recent_dates d (Suc n)). valid_date x \<and> x \<le> d"
    unfolding r using all pd Suc.prems(1) by auto
  have c: "sorted_wrt (\<lambda>a b. b < a) (recent_dates d (Suc n))"
    unfolding r using srt below by simp
  have e: "map (minus_days d) [0..<Suc n] = map Some (recent_dates d (Suc n))"
    unfolding m r using md by simp
  from a b c e show ?case by blast
qed

lemma recent_keys_distinct:
  assumes "valid_date d" "n < fst d"
  shows "distinct (map strftime_ymd (recent_dates d n))"
proof -
  from recent_dates_props[OF assms] have
    v: "\<forall>x \<in> set (recent_dates d n). valid_date x"
    and s: "sorted_wrt (\<lambda>a b. b < a) (recent_dates d n)" by simp_all
  have "sorted_wrt (\<lambda>a b. strftime_ymd b < strftime_ymd a) (recent_dates d n)"
    by (rule sorted_wrt_mono_rel[OF _ s]) (use v strftime_less in blast)
  then have "sorted_wrt (\<lambda>a b. b < a) (map strftime_ymd (recent_dates d n))"
    by (simp add: sorted_wrt_map)
  then have "sorted_wrt (<) (rev (map strftime_ymd (recent_dates d n)))"
    by (simp add: sorted_wrt_rev)
  then have "distinct (rev (map strftime_ymd (recent_dates d n)))"
    using strict_sorted_iff by blast
  then show ?thesis by simp
qed

subsection \<open>The loop of the generator\<close>

lemma update_fresh: "k \<notin> fst ` set al \<Longrightarrow> AList.update k v al = al @ [(k, v)]"
  by (induction al) auto

lemma demo_loop_ok:
  assumes fr: "float_rounding (fl e)"
    and ru: "\<forall>k. 0 \<le> rand_unit e k \<and> rand_unit e k < 1"
    and bp: "1 \<le> bp"
  shows "\<forall>j < length is. clock_date e (n_clock w + j) = today \<Longrightarrow>
     map (minus_days today) is = map Some ds \<Longrightarrow>
     distinct (map fst ts @ map strftime_ymd ds) \<Longrightarrow>
     \<exists>ts' w'. demo_loop e bp is ts w = (Inr ts', w') \<and>
       map fst ts' = map fst ts @ map strftime_ymd ds \<and>
       (\<forall>kv \<in> set ts'. kv \<in> set ts \<or> ohlc_ok (snd kv)) \<and>
       n_clock w' = n_clock w + length is"
proof (induction "is" arbitrary: ts w ds)
  case Nil
  then show ?case by simp
next
  case (Cons i rest)
  from Cons.prems(2) obtain d ds' where ds: "ds = d # ds'" by (cases ds) auto
  with Cons.prems(2) have md: "minus_days today i = Some d"
    and mds: "map (minus_days today) rest = map Some ds'" by simp_all
  from Cons.prems(1) have c0: "clock_date e (n_clock w) = today" by force
  from demo_entry_ok[OF fr ru bp md[folded c0]] obtain v w1 where
    en: "demo_entry e bp i w = (Inr (strftime_ymd d, v), w1)" and ok: "ohlc_ok v"
    and c1: "n_clock w1 = Suc (n_clock w)" by blast
  from Cons.prems(3) ds have fresh: "strftime_ymd d \<notin> fst ` set ts" by auto
  have up: "AList.update (strftime_ymd d) v ts = ts @ [(strftime_ymd d, v)]"
    using fresh by (rule update_fresh)
  have clock': "\<forall>j < length rest. clock_date e (n_clock w1 + j) = today"
  proof (intro allI impI)
    fix j assume "j < length rest"
    then have "Suc j < length (i # rest)" by simp
    with Cons.prems(1) have "clock_date e (n_clock w + Suc j) = today" by blast
    then show "clock_date e (n_clock w1 + j) = today" using c1 by simp
  qed
  have dist': "distinct (map fst (ts @ [(strftime_ymd d, v)]) @ map strftime_ymd ds')"
    using Cons.prems(3) ds by simp
  from Cons.IH[OF clock' mds dist'] obtain ts' w' where
    l: "demo_loop e bp rest (ts @ [(strftime_ymd d, v)]) w1 = (Inr ts', w')"
    and k: "map fst ts' = map fst (ts @ [(strftime_ymd d, v)]) @ map strftime_ymd ds'"
    and o: "\<forall>kv \<in> set ts'. kv \<in> set (ts @ [(strftime_ymd d, v)]) \<or> ohlc_ok (snd kv)"
    and n: "n_clock w' = n_clock w1 + length rest" by blast
  have l': "demo_loop e bp (i # rest) ts w = (Inr ts', w')" using en up l by simp
  have k': "map fst ts' = map fst ts @ map strftime_ymd ds" using k ds by simp
  have o': "\<forall>kv \<in> set ts'. kv \<in> set ts \<or> ohlc_ok (snd kv)" using o ok by auto
  have n': "n_clock w' = n_clock w + length (i # rest)" using n c1 by simp
  from l' k' o' n' show ?case by blast
qed

lemma base_price_ge_one: "float_rounding (fl e) \<Longrightarrow> 1 \<le> base_price e symb"
proof -
  assume fr: "float_rounding (fl e)"
  have "1 \<le> fl e p" if "1 \<le> p" for p
    using fr_mono[OF fr that] fr_exact[OF fr] by simp
  then show ?thesis by (simp add: base_price_def lit_def split: option.splits)
qed

lemma float_rounding_id: "float_rounding (\<lambda>x. x)"
  by (simp add: float_rounding_def)

lemma recent_2024_03_02:
  "map strftime_ymd (recent_dates (2024, 3, 2) 7) =
     [''2024-03-02'', ''2024-03-01'', ''2024-02-29'', ''2024-02-28'', ''2024-02-27'',
      ''2024-02-26'', ''2024-02-25'']"
proof -
  have seven: "(7::nat) = Suc (Suc (Suc (Suc (Suc (Suc (Suc 0))))))" by arith
  show ?thesis
    unfolding seven
    by (simp add: prev_day_def days_in_month_def is_leap_def strftime_ymd_def
        pad4_def pad2_def digit_char_num)
qed

text \<open>
  While the local date stays \<open>today\<close> during the call, the generator returns, for every
  symbol, every outcome of the random draws and every rounding of the float operations, a
  response whose time series has exactly seven entries, keyed by the seven most recent
  dates from \<open>today\<close> backward, each entry with the invariant \<open>ohlc_ok\<close> on the values
  of its formatted strings.
\<close>

lemma get_demo_data_shape:
  assumes fr: "float_rounding (fl e)"
    and ru: "\<forall>k. 0 \<le> rand_unit e k \<and> rand_unit e k < 1"
    and clock: "\<forall>j < 7. clock_date e (n_clock w + j) = today"
    and valid: "valid_date today"
    and year: "1000 < fst today"
  shows "(\<exists>data. fst (get_demo_data e symb w) = Inr data)
     \<and> length (time_series_of (fst (get_demo_data e symb w))) = 7
     \<and> map fst (time_series_of (fst (get_demo_data e symb w))) =
         map strftime_ymd (recent_dates today 7)
     \<and> distinct (map fst (time_series_of (fst (get_demo_data e symb w))))
     \<and> length (recent_dates today 7) = 7
     \<and> sorted_wrt (\<lambda>a b. b < a) (recent_dates today 7)
     \<and> list_all ohlc_ok (map snd (time_series_of (fst (get_demo_data e symb w))))"
proof -
  have n: "7 < fst today" using year by simp
  from recent_dates_props[OF valid n] have
    len: "length (recent_dates today 7) = 7"
    and srt: "sorted_wrt (\<lambda>a b. b < a) (recent_dates today 7)"
    and md: "map (minus_days today) [0..<7] = map Some (recent_dates today 7)" by simp_all
  have dk: "distinct (map strftime_ymd (recent_dates today 7))"
    using valid n by (rule recent_keys_distinct)
  have clock': "\<forall>j < length [0..<7]. clock_date e (n_clock w + j) = today"
    using clock by simp
  have dist: "distinct (map fst ([]::pydict) @ map strftime_ymd (recent_dates today 7))"
    using dk by simp
  from demo_loop_ok[OF fr ru base_price_ge_one[OF fr, of symb] clock' md dist] obtain ts w' where
    l: "demo_loop e (base_price e symb) [0..<7] [] w = (Inr ts, w')"
    and k: "map fst ts = map strftime_ymd (recent_dates today 7)"
    and o: "\<forall>kv \<in> set ts. ohlc_ok (snd kv)" by auto
  have g: "time_series_of (fst (get_demo_data e symb w)) = ts"
    using l by (simp add: get_demo_data_def time_series_of_def)
  have r: "\<exists>data. fst (get_demo_data e symb w) = Inr data"
    using l by (simp add: get_demo_data_def)
  have lt: "length ts = 7" using k len by (metis length_map)
  have la: "list_all ohlc_ok (map snd ts)" using o by (simp add: list_all_iff)
  from r lt k dk len srt la show ?thesis unfolding g by simp
qed

lemma get_demo_data_shape_example:
  "map fst (time_series_of (fst (get_demo_data offline_env ''AAPL'' empty_world))) =
     [''2024-03-02'', ''2024-03-01'', ''2024-02-29'', ''2024-02-28'', ''2024-02-27'',
      ''2024-02-26'', ''2024-02-25'']
   \<and> list_all ohlc_ok (map snd (time_series_of (fst (get_demo_data offline_env ''AAPL'' empty_world))))"
proof -
  have fr: "float_rounding (fl offline_env)"
    by (simp add: offline_env_def float_rounding_id)
  have ru: "\<forall>k. 0 \<le> rand_unit offline_env k \<and> rand_unit offline_env k < 1"
    by (simp add: offline_env_def)
  have clock: "\<forall>j < 7. clock_date offline_env (n_clock empty_world + j) = (2024, 3, 2)"
    by (simp add: offline_env_def)
  have valid: "valid_date (2024, 3, 2)"
    by (simp add: valid_date_def days_in_month_def)
  have year: "1000 < fst ((2024, 3, 2) :: date)" by simp
  show ?thesis
    using get_demo_data_shape[OF fr ru clock valid year, of "''AAPL''"]
    by (simp only: recent_2024_03_02)
qed

subsection \<open>The clock passes midnight\<close>

lemma minus_days_numeral:
  "minus_days dt (numeral k) =
     (case prev_day dt of None \<Rightarrow> None | Some p \<Rightarrow> minus_days p (pred_numeral k))"
  by (simp add: numeral_eq_Suc)

lemma all_less_7:
  "(\<forall>j<(7::nat). P j) = (P 0 \<and> P 1 \<and> P 2 \<and> P 3 \<and> P 4 \<and> P 5 \<and> P 6)"
proof -
  have "{..<7::nat} = {0, 1, 2, 3, 4, 5, 6}" by auto
  then have "(\<forall>j<(7::nat). P j) = (\<forall>j \<in> {0, 1, 2, 3, 4, 5, 6}. P j)"
    by (metis lessThan_iff)
  then show ?thesis by simp
qed

lemma demo_entry_key:
  assumes "minus_days (clock_date e (n_clock w)) i = Some d"
  shows "\<exists>v w'. demo_entry e bp i w = (Inr (strftime_ymd d, v), w') \<and>
           n_clock w' = Suc (n_clock w)"
  unfolding demo_entry_def Let_def using assms
  by (simp add: split_beta snd_uniform snd_randint)

lemma demo_loop_keys:
  "length ds = length is \<Longrightarrow>
   \<forall>j < length is. minus_days (clock_date e (n_clock w + j)) (is ! j) = Some (ds ! j) \<Longrightarrow>
   \<exists>ts' w'. demo_loop e bp is ts w = (Inr ts', w') \<and>
     map fst ts' = add_keys (map fst ts) (map strftime_ymd ds)"
proof (induction "is" arbitrary: ts w ds)
  case Nil
  then show ?case by simp
next
  case (Cons i rest)
  from Cons.prems(1) obtain d ds' where ds: "ds = d # ds'" by (cases ds) auto
  from Cons.prems(2) have "minus_days (clock_date e (n_clock w + 0)) ((i # rest) ! 0) = Some (ds ! 0)"
    by blast
  then have md: "minus_days (clock_date e (n_clock w)) i = Some d" using ds by simp
  from demo_entry_key[OF md] obtain v w1 where
    en: "demo_entry e bp i w = (Inr (strftime_ymd d, v), w1)"
    and c1: "n_clock w1 = Suc (n_clock w)" by blast
  have len: "length ds' = length rest" using Cons.prems(1) ds by simp
  have rest: "\<forall>j < length rest.
      minus_days (clock_date e (n_clock w1 + j)) (rest ! j) = Some (ds' ! j)"
  proof (intro allI impI)
    fix j assume "j < length rest"
    then have "Suc j < length (i # rest)" by simp
    with Cons.prems(2) have
      "minus_days (clock_date e (n_clock w + Suc j)) ((i # rest) ! Suc j) = Some (ds ! Suc j)"
      by blast
    then show "minus_days (clock_date e (n_clock w1 + j)) (rest ! j) = Some (ds' ! j)"
      using c1 ds by simp
  qed
  from Cons.IH[OF len rest, of "AList.update (strftime_ymd d) v ts"] obtain ts' w' where
    l: "demo_loop e bp rest (AList.update (strftime_ymd d) v ts) w1 = (Inr ts', w')"
    and k: "map fst ts' =
        add_keys (map fst (AList.update (strftime_ymd d) v ts)) (map strftime_ymd ds')"
    by blast
  have "demo_loop e bp (i # rest) ts w = (Inr ts', w')" using en l by simp
  moreover have "map fst ts' = add_keys (map fst ts) (map strftime_ymd ds)"
    using k ds by (simp add: AList.update_keys)
  ultimately show ?case by blast
qed

text \<open>
  C4: the generator returns exactly seven entries keyed by the seven most recent dates. The
  loop reads the clock anew in every round (\<open>datetime.now() - timedelta(days=i)\<close>): when
  the date changes between the first and the second reading, both rounds write the same
  key, and the time series has six entries, none of them for the new day.
\<close>

theorem get_demo_data_midnight:
  "map fst (time_series_of (fst (get_demo_data midnight_env ''AAPL'' empty_world))) =
     [''2024-03-02'', ''2024-03-01'', ''2024-02-29'', ''2024-02-28'', ''2024-02-27'',
      ''2024-02-26'']"
proof -
  let ?ds = "[(2024, 3, 2), (2024, 3, 2), (2024, 3, 1), (2024, 2, 29), (2024, 2, 28),
              (2024, 2, 27), (2024, 2, 26)] :: date list"
  have len: "length ?ds = length [0..<7]" by simp
  have reads: "\<forall>j < length [0..<7].
      minus_days (clock_date midnight_env (n_clock empty_world + j)) ([0..<7] ! j) = Some (?ds ! j)"
    by (simp add: all_less_7 midnight_env_def offline_env_def empty_world_def minus_days_numeral
        prev_day_def days_in_month_def is_leap_def)
  from demo_loop_keys[OF len reads, of "base_price midnight_env ''AAPL''" "[]"] obtain ts w' where
    l: "demo_loop midnight_env (base_price midnight_env ''AAPL'') [0..<7] [] empty_world =
          (Inr ts, w')"
    and k: "map fst ts = add_keys (map fst ([]::pydict)) (map strftime_ymd ?ds)" by blast
  have "time_series_of (fst (get_demo_data midnight_env ''AAPL'' empty_world)) = ts"
    using l by (simp add: get_demo_data_def time_series_of_def)
  then show ?thesis
    using k by (simp add: strftime_ymd_def pad4_def pad2_def digit_char_num)
qed

end
